theory Spec2Isabelle
  imports Complex_Main "HOL-Library.AList" "HOL-Library.Char_ord" "HOL-Library.List_Lexorder"
    "HOL-Library.Multiset"
begin

section \<open>Data model of shufflr/sources.py\<close>

text \<open>
  Exceptions of the Python source as values. The names follow the failure taxonomy of the
  specification where it has one; the comment gives the Python exception behind each.
\<close>

datatype error =
    NotFound            \<comment> \<open>\<open>assert key in self\<close> (File), \<open>del self[key]\<close> KeyError (Cache)\<close>
  | InvalidKey          \<comment> \<open>\<open>assert keyutils.is_keylike(key)\<close>\<close>
  | AlreadyExists       \<comment> \<open>h5py \<open>create_dataset\<close> on a name that is taken\<close>
  | UnknownKind         \<comment> \<open>\<open>raise ValueError("Dataset contains unknown type")\<close>\<close>
  | TypeError           \<comment> \<open>unhashable label used as dict key, or iteration over a number\<close>
  | RaggedTable         \<comment> \<open>\<open>np.asarray(index_list, dtype=int)\<close> on rows of different width\<close>
  | SourceExhausted     \<comment> \<open>\<open>source.next()\<close> raises StopIteration\<close>
  | BadProbability      \<comment> \<open>\<open>np.random.binomial\<close> with p outside [0, 1]\<close>
  | EmptyChoice         \<comment> \<open>\<open>choice([])\<close> raises IndexError; PairingInfeasible in the specification\<close>
  | EmptyRange          \<comment> \<open>\<open>np.random.randint(0)\<close> raises ValueError\<close>
  | MissingLabel        \<comment> \<open>\<open>labels[label_key]\<close> KeyError\<close>
  | BadIndex            \<comment> \<open>numpy indexing out of range or with a mask that is not 1-D\<close>

text \<open>
  An attribute (label) value: a Python int, a string, or a numpy array of strings.
  Only the last is unhashable; only the empty string is falsy and not numeric.
\<close>

datatype attr = AInt int | AStr string | AArr "string list"

text \<open>
  An item (\<open>core.Dataset\<close>): the payload \<open>value\<close> (kept abstract), the \<open>type\<close> tag
  compared against the strings Sample and Sequence, and the attribute dictionary that
  carries the labels, as an association list in dictionary order.
\<close>

record 'v item =
  item_value :: 'v
  item_type :: string
  item_attrs :: "(string \<times> attr) list"

text \<open>Rows of the index table: \<open>(key_index, label_code)\<close> or \<open>(key_index, subindex, label_code)\<close>.\<close>

datatype row = SampleRow int nat | SequenceRow int nat nat

fun row_code :: "row \<Rightarrow> nat" where
  "row_code (SampleRow i c) = c"
| "row_code (SequenceRow i s c) = c"

fun row_index :: "row \<Rightarrow> int" where
  "row_index (SampleRow i c) = i"
| "row_index (SequenceRow i s c) = i"

fun is_sample_row :: "row \<Rightarrow> bool" where
  "is_sample_row (SampleRow i c) = True"
| "is_sample_row (SequenceRow i s c) = False"

text \<open>
  What the file holds under a name: an item, or one of the three derived tables.
  The hierarchy of HDF5 groups is not modelled: the store is a flat mapping from names
  to objects, kept as an association list whose order has no meaning (a scan of the
  file goes by the names, see \<open>visititems\<close>).
\<close>

datatype 'v obj =
    Item "'v item"
  | KeyTable "string list"
  | EnumTable "(attr \<times> nat) list"
  | IndexTable "row list"

text \<open>
  The modules \<open>ReservedKeys\<close> and \<open>keyutils\<close> are not part of the sources at hand; their
  constants and functions are parameters of the model.
\<close>

record env =
  KEY_MANIFEST :: string
  LABEL_ENUM :: string
  INDEX_TABLE :: string
  is_keylike :: "string \<Rightarrow> bool"
  cleanse :: "string \<Rightarrow> string"
  key_to_index :: "string \<Rightarrow> int"

definition reserved :: "env \<Rightarrow> string set" where
  "reserved E = {KEY_MANIFEST E, LABEL_ENUM E, INDEX_TABLE E}"

text \<open>
  What the specification says of the missing helpers: a key-like name is never a reserved
  one, and a cleansed key is in normal form (cleansing it again changes nothing).
\<close>

definition wf_env :: "env \<Rightarrow> bool" where
  "wf_env E \<longleftrightarrow>
     distinct [KEY_MANIFEST E, LABEL_ENUM E, INDEX_TABLE E] \<and>
     (\<forall>k. is_keylike E k \<longrightarrow> k \<notin> reserved E) \<and>
     (\<forall>k. is_keylike E (cleanse E k) \<longrightarrow> cleanse E (cleanse E k) = cleanse E k)"

section \<open>File: the persistent store\<close>

record 'v h5file =
  f_disk :: "(string \<times> 'v obj) list"
  f_keys :: "string list"
  f_label_enum :: "(attr \<times> nat) list"
  f_index_table :: "row list option"

definition new_file :: "'v h5file" where
  "new_file = \<lparr>f_disk = [], f_keys = [], f_label_enum = [], f_index_table = None\<rparr>"

definition contains :: "'v h5file \<Rightarrow> string \<Rightarrow> bool" where
  "contains f k \<longleftrightarrow> map_of (f_disk f) k \<noteq> None"

definition clear_local_tables :: "'v h5file \<Rightarrow> 'v h5file" where
  "clear_local_tables f = f\<lparr>f_keys := [], f_label_enum := [], f_index_table := None\<rparr>"

definition clear_persistent_tables :: "env \<Rightarrow> 'v h5file \<Rightarrow> 'v h5file" where
  "clear_persistent_tables E f =
     (let f1 = clear_local_tables f
      in f1\<lparr>f_disk := fold (\<lambda>k d. if map_of d k \<noteq> None then AList.delete k d else d)
                          [KEY_MANIFEST E, LABEL_ENUM E, INDEX_TABLE E] (f_disk f1)\<rparr>)"

text \<open>
  \<open>File.get\<close>: the assertion, then h5py's own \<open>get\<close>, whose result is handed to
  \<open>core.Factory\<close>. The module \<open>core\<close> is not among the sources, so the factory is a
  parameter of the model: whatever it makes of a stored object (a failure of its own
  included) is its result, of a type left open. The only failure of \<open>get\<close> itself is
  the assertion.
\<close>

definition File_get :: "('v obj \<Rightarrow> 'r) \<Rightarrow> 'v h5file \<Rightarrow> string \<Rightarrow> error + 'r" where
  "File_get Factory f key =
     (case map_of (f_disk f) key of
        None \<Rightarrow> Inl NotFound
      | Some ob \<Rightarrow> Inr (Factory ob))"

text \<open>
  Modelled from the spec: \<open>utils.partition_attrs\<close> is missing. The specification says it
  partitions the attributes into scalar and array-valued ones; the mapping is unchanged.
\<close>

fun is_array :: "attr \<Rightarrow> bool" where
  "is_array (AArr xs) = True"
| "is_array _ = False"

definition partition_attrs :: "(string \<times> attr) list \<Rightarrow> (string \<times> attr) list" where
  "partition_attrs as =
     filter (\<lambda>(k, v). \<not> is_array v) as @ filter (\<lambda>(k, v). is_array v) as"

text \<open>
  The guard of the copy loop in \<open>File.add\<close>: ints, floats and arrays are always written,
  anything else only when it is truthy.
\<close>

fun written :: "attr \<Rightarrow> bool" where
  "written (AInt n) = True"
| "written (AArr xs) = True"
| "written (AStr s) = (s \<noteq> [])"

text \<open>
  \<open>File.add\<close>. The argument \<open>overwrite\<close> is never read. The tables are cleared before the
  dataset is created, so they stay cleared when \<open>create_dataset\<close> refuses a name that
  exists. Where the new entry stands in the list has no meaning: a lookup goes by the
  name, and so does a scan.
\<close>

definition File_add :: "env \<Rightarrow> 'v h5file \<Rightarrow> string \<Rightarrow> 'v item \<Rightarrow> (error + unit) \<times> 'v h5file" where
  "File_add E f key0 data =
     (let key = cleanse E key0 in
      if \<not> is_keylike E key then (Inl InvalidKey, f)
      else
        let f1 = clear_persistent_tables E f in
        if contains f1 key then (Inl AlreadyExists, f1)
        else
          let attrs = partition_attrs (item_attrs data);
              dataset = \<lparr>item_value = item_value data, item_type = item_type data,
                         item_attrs = filter (\<lambda>(k, v). written v) attrs\<rparr>
          in (Inr (), f1\<lparr>f_disk := f_disk f1 @ [(key, Item dataset)]\<rparr>))"

definition File_remove :: "env \<Rightarrow> 'v h5file \<Rightarrow> string \<Rightarrow> (error + unit) \<times> 'v h5file" where
  "File_remove E f key =
     (if \<not> contains f key then (Inl NotFound, f)
      else (Inr (), clear_persistent_tables E (f\<lparr>f_disk := AList.delete key (f_disk f)\<rparr>)))"

subsection \<open>The scan that builds the tables\<close>

text \<open>
  \<open>if not label in enum: enum[label] = len(enum)\<close>, followed by the read \<open>enum[label]\<close>.
\<close>

definition enumerate_label :: "(attr \<times> nat) list \<Rightarrow> attr \<Rightarrow> (attr \<times> nat) list \<times> nat" where
  "enumerate_label en l =
     (case map_of en l of
        Some c \<Rightarrow> (en, c)
      | None \<Rightarrow> (en @ [(l, length en)], length en))"

text \<open>The state of a scan: \<open>self._label_enum\<close> and the local \<open>index_list\<close>.\<close>

type_synonym scan = "(attr \<times> nat) list \<times> row list"

text \<open>A \<open>for\<close> loop whose body may raise: the state reached is kept with the error.\<close>

fun for_each :: "('x \<Rightarrow> 's \<Rightarrow> error option \<times> 's) \<Rightarrow> 'x list \<Rightarrow> 's \<Rightarrow> error option \<times> 's" where
  "for_each body [] s = (None, s)"
| "for_each body (x # xs) s =
     (case body x s of
        (Some e, s') \<Rightarrow> (Some e, s')
      | (None, s') \<Rightarrow> for_each body xs s')"

text \<open>One label of a Sample item. A numpy array cannot be a dictionary key.\<close>

definition sample_label :: "int \<Rightarrow> attr \<Rightarrow> scan \<Rightarrow> error option \<times> scan" where
  "sample_label idx l s =
     (if is_array l then (Some TypeError, s)
      else let (en, c) = enumerate_label (fst s) l
           in (None, (en, snd s @ [SampleRow idx c])))"

text \<open>One element of a label sequence of a Sequence item.\<close>

definition sequence_label :: "int \<Rightarrow> nat \<times> attr \<Rightarrow> scan \<Rightarrow> error option \<times> scan" where
  "sequence_label idx sl s =
     (let (en, c) = enumerate_label (fst s) (snd sl)
      in (None, (en, snd s @ [SequenceRow idx (fst sl) c])))"

text \<open>
  \<open>enumerate(label_seq)\<close>: an array yields its strings, a string its characters, and a
  number is not iterable.
\<close>

fun label_elements :: "attr \<Rightarrow> error + attr list" where
  "label_elements (AArr xs) = Inr (map AStr xs)"
| "label_elements (AStr s) = Inr (map (\<lambda>c. AStr [c]) s)"
| "label_elements (AInt n) = Inl TypeError"

definition sequence_labels :: "int \<Rightarrow> attr \<Rightarrow> scan \<Rightarrow> error option \<times> scan" where
  "sequence_labels idx label_seq s =
     (case label_elements label_seq of
        Inl e \<Rightarrow> (Some e, s)
      | Inr ls \<Rightarrow> for_each (sequence_label idx) (zip [0..<length ls] ls) s)"

text \<open>The branch on the type tag, shared by \<open>File.create_tables\<close> and \<open>Cache.create_tables\<close>.\<close>

definition index_item :: "int \<Rightarrow> 'v item \<Rightarrow> scan \<Rightarrow> error option \<times> scan" where
  "index_item idx it s =
     (if item_type it = ''Sample'' then
        for_each (sample_label idx) (map snd (item_attrs it)) s
      else if item_type it = ''Sequence'' then
        for_each (sequence_labels idx) (map snd (item_attrs it)) s
      else (Some UnknownKind, s))"

text \<open>
  The callback \<open>cache_data\<close> of \<open>File.create_tables\<close>, on the state
  \<open>(self._keys, (self._label_enum, index_list))\<close>. Every stored object is an h5py
  Dataset; one that is not an item has no known type.
\<close>

definition cache_data :: "env \<Rightarrow> string \<times> 'v obj \<Rightarrow> string list \<times> scan \<Rightarrow> error option \<times> (string list \<times> scan)" where
  "cache_data E ko st =
     (if is_keylike E (fst ko) then
        let ks = fst st @ [cleanse E (fst ko)] in
        (case snd ko of
           Item it \<Rightarrow>
             (case index_item (key_to_index E (fst ko)) it (snd st) of
                (r, s') \<Rightarrow> (r, (ks, s')))
         | _ \<Rightarrow> (Some UnknownKind, (ks, snd st)))
      else (None, st))"

text \<open>
  h5py's \<open>visititems\<close> walks the members of a group in the increasing order of their
  names, compared character by character (the file is opened with the default
  \<open>libver\<close>, whose groups are indexed by name). On the flat store this is the list of
  the entries sorted by name, whatever the order in which they were created.
\<close>

definition visititems :: "(string \<times> 'v obj) list \<Rightarrow> (string \<times> 'v obj) list" where
  "visititems d = sort_key fst d"

text \<open>\<open>np.asarray(index_list, dtype=int)\<close> needs rows of one width.\<close>

definition asarray_ok :: "row list \<Rightarrow> bool" where
  "asarray_ok rs \<longleftrightarrow> list_all is_sample_row rs \<or> list_all (\<lambda>r. \<not> is_sample_row r) rs"

definition File_create_tables :: "env \<Rightarrow> 'v h5file \<Rightarrow> (error + unit) \<times> 'v h5file" where
  "File_create_tables E f =
     (let f1 = clear_persistent_tables E f in
      case for_each (cache_data E) (visititems (f_disk f1)) (f_keys f1, (f_label_enum f1, [])) of
        (Some e, (ks, (en, rows))) \<Rightarrow> (Inl e, f1\<lparr>f_keys := ks, f_label_enum := en\<rparr>)
      | (None, (ks, (en, rows))) \<Rightarrow>
          let f2 = f1\<lparr>f_keys := ks, f_label_enum := en\<rparr> in
          if \<not> asarray_ok rows then (Inl RaggedTable, f2)
          else (Inr (), f2\<lparr>f_disk := f_disk f2 @
                  [(INDEX_TABLE E, IndexTable rows),
                   (KEY_MANIFEST E, KeyTable ks),
                   (LABEL_ENUM E, EnumTable en)]\<rparr>))"

text \<open>
  The three readers. Each rebuilds when its own reserved entry is missing, asserts that it
  is there, and fills its local copy from the file when that copy is empty.
\<close>

definition File_keys :: "env \<Rightarrow> 'v h5file \<Rightarrow> (error + string list) \<times> 'v h5file" where
  "File_keys E f =
     (case (if \<not> contains f (KEY_MANIFEST E) then File_create_tables E f else (Inr (), f)) of
        (Inl e, f1) \<Rightarrow> (Inl e, f1)
      | (Inr u, f1) \<Rightarrow>
          (case map_of (f_disk f1) (KEY_MANIFEST E) of
             Some (KeyTable ks) \<Rightarrow>
               let f2 = (if f_keys f1 = [] then f1\<lparr>f_keys := ks\<rparr> else f1)
               in (Inr (f_keys f2), f2)
           | Some ob \<Rightarrow> (Inl TypeError, f1)
           | None \<Rightarrow> (Inl NotFound, f1)))"

definition File_label_enum :: "env \<Rightarrow> 'v h5file \<Rightarrow> (error + (attr \<times> nat) list) \<times> 'v h5file" where
  "File_label_enum E f =
     (case (if \<not> contains f (LABEL_ENUM E) then File_create_tables E f else (Inr (), f)) of
        (Inl e, f1) \<Rightarrow> (Inl e, f1)
      | (Inr u, f1) \<Rightarrow>
          (case map_of (f_disk f1) (LABEL_ENUM E) of
             Some (EnumTable en) \<Rightarrow>
               let f2 = (if f_label_enum f1 = [] then f1\<lparr>f_label_enum := en\<rparr> else f1)
               in (Inr (f_label_enum f2), f2)
           | Some ob \<Rightarrow> (Inl TypeError, f1)
           | None \<Rightarrow> (Inl NotFound, f1)))"

definition File_index_table :: "env \<Rightarrow> 'v h5file \<Rightarrow> (error + row list) \<times> 'v h5file" where
  "File_index_table E f =
     (case (if \<not> contains f (INDEX_TABLE E) then File_create_tables E f else (Inr (), f)) of
        (Inl e, f1) \<Rightarrow> (Inl e, f1)
      | (Inr u, f1) \<Rightarrow>
          (case map_of (f_disk f1) (INDEX_TABLE E) of
             Some (IndexTable rows) \<Rightarrow>
               (case f_index_table f1 of
                  None \<Rightarrow> (Inr rows, f1\<lparr>f_index_table := Some rows\<rparr>)
                | Some t \<Rightarrow> (Inr t, f1))
           | Some ob \<Rightarrow> (Inl TypeError, f1)
           | None \<Rightarrow> (Inl NotFound, f1)))"

section \<open>Source: the pull interface\<close>

text \<open>
  No class of the module implements the source; a Cache or a batch only calls \<open>next()\<close>
  and reads \<open>num_items\<close>. A source is the sequence of pairs it will produce (finite when
  some position yields nothing, from where on \<open>next()\<close> raises), the position reached,
  and the count it announces.
\<close>

record 'v source =
  s_items :: "nat \<Rightarrow> (string \<times> 'v item) option"
  s_pos :: nat
  num_items :: nat

definition source_next :: "'v source \<Rightarrow> (error + string \<times> 'v item) \<times> 'v source" where
  "source_next s =
     (case s_items s (s_pos s) of
        None \<Rightarrow> (Inl SourceExhausted, s)
      | Some kv \<Rightarrow> (Inr kv, s\<lparr>s_pos := Suc (s_pos s)\<rparr>))"

section \<open>Cache: the in-memory working set\<close>

text \<open>
  The Cache is a Python dict (the resident set, here an association list updated as a
  dict is) with the source, the stored refresh probability and the local tables.
\<close>

record 'v cache =
  c_items :: "(string \<times> 'v item) list"
  c_source :: "'v source"
  c_refresh_prob :: real
  c_keys :: "string list"
  c_label_enum :: "(attr \<times> nat) list"
  c_index_table :: "row list"

definition Cache_clear_tables :: "'v cache \<Rightarrow> 'v cache" where
  "Cache_clear_tables c = c\<lparr>c_keys := [], c_label_enum := [], c_index_table := []\<rparr>"

text \<open>\<open>Cache.load\<close>: the tables are not touched (the rebuild at its end is commented out).\<close>

fun Cache_load :: "'v cache \<Rightarrow> nat \<Rightarrow> (error + unit) \<times> 'v cache" where
  "Cache_load c 0 = (Inr (), c)"
| "Cache_load c (Suc n) =
     (case source_next (c_source c) of
        (Inl e, s') \<Rightarrow> (Inl e, c\<lparr>c_source := s'\<rparr>)
      | (Inr (k, v), s') \<Rightarrow>
          Cache_load (c\<lparr>c_source := s', c_items := AList.update k v (c_items c)\<rparr>) n)"

definition Cache_remove :: "'v cache \<Rightarrow> string \<Rightarrow> (error + unit) \<times> 'v cache" where
  "Cache_remove c key =
     (if map_of (c_items c) key = None then (Inl NotFound, c)
      else (Inr (), Cache_clear_tables (c\<lparr>c_items := AList.delete key (c_items c)\<rparr>)))"

text \<open>
  \<open>Cache.__init__\<close>. The probability is stored first; the later assignment
  \<open>refresh_prob = 0\<close> changes the local variable only, which is not read again.
\<close>

definition Cache_init :: "'v source \<Rightarrow> nat \<Rightarrow> real \<Rightarrow> (error + unit) \<times> 'v cache" where
  "Cache_init source cache_size0 refresh_prob0 =
     (let c = \<lparr>c_items = [], c_source = source, c_refresh_prob = refresh_prob0,
                c_keys = [], c_label_enum = [], c_index_table = []\<rparr>;
          (cache_size, refresh_prob) =
            (if num_items (c_source c) < cache_size0 then (num_items (c_source c), 0)
             else (cache_size0, refresh_prob0))
      in case Cache_load c cache_size of
           (Inl e, c') \<Rightarrow> (Inl e, c')
         | (Inr u, c') \<Rightarrow> (Inr (), Cache_clear_tables c'))"

text \<open>
  \<open>np.random.binomial(1, p)\<close>: one Bernoulli trial, decided by a uniform draw \<open>u\<close> from
  \<open>[0, 1)\<close>; numpy refuses a \<open>p\<close> outside \<open>[0, 1]\<close>.
\<close>

definition binomial1 :: "real \<Rightarrow> real \<Rightarrow> error + bool" where
  "binomial1 p u = (if p < 0 \<or> 1 < p then Inl BadProbability else Inr (u < p))"

text \<open>\<open>random.choice\<close> and \<open>np.random.randint\<close>, decided by a drawn natural number.\<close>

definition choice :: "'a list \<Rightarrow> nat \<Rightarrow> error + 'a" where
  "choice xs r = (if xs = [] then Inl EmptyChoice else Inr (xs ! (r mod length xs)))"

definition randint :: "nat \<Rightarrow> nat \<Rightarrow> error + nat" where
  "randint N r = (if N = 0 then Inl EmptyRange else Inr (r mod N))"

definition Cache_refresh :: "'v cache \<Rightarrow> string \<Rightarrow> real option \<Rightarrow> real \<Rightarrow> (error + unit) \<times> 'v cache" where
  "Cache_refresh c key p0 u =
     (let p = (case p0 of None \<Rightarrow> c_refresh_prob c | Some q \<Rightarrow> q) in
      case binomial1 p u of
        Inl e \<Rightarrow> (Inl e, c)
      | Inr False \<Rightarrow> (Inr (), c)
      | Inr True \<Rightarrow>
          (case Cache_remove c key of
             (Inl e, c') \<Rightarrow> (Inl e, c')
           | (Inr u', c') \<Rightarrow> Cache_load c' 1))"

definition Cache_refresh_rand :: "'v cache \<Rightarrow> real option \<Rightarrow> nat \<Rightarrow> real \<Rightarrow> (error + unit) \<times> 'v cache" where
  "Cache_refresh_rand c p0 r u =
     (case choice (map fst (c_items c)) r of
        Inl e \<Rightarrow> (Inl e, c)
      | Inr key \<Rightarrow> Cache_refresh c key p0 u)"

text \<open>The scan of \<open>Cache.create_tables\<close> over the resident items.\<close>

definition cache_item :: "env \<Rightarrow> string \<times> 'v item \<Rightarrow> scan \<Rightarrow> error option \<times> scan" where
  "cache_item E ko s =
     (if is_keylike E (fst ko) then index_item (key_to_index E (fst ko)) (snd ko) s
      else (None, s))"

definition Cache_create_tables :: "env \<Rightarrow> 'v cache \<Rightarrow> (error + unit) \<times> 'v cache" where
  "Cache_create_tables E c =
     (let c1 = Cache_clear_tables c in
      case for_each (cache_item E) (c_items c1) (c_label_enum c1, []) of
        (Some e, (en, rows)) \<Rightarrow> (Inl e, c1\<lparr>c_label_enum := en\<rparr>)
      | (None, (en, rows)) \<Rightarrow> (Inr (), c1\<lparr>c_label_enum := en, c_index_table := rows\<rparr>))"

definition Cache_label_enum :: "env \<Rightarrow> 'v cache \<Rightarrow> (error + (attr \<times> nat) list) \<times> 'v cache" where
  "Cache_label_enum E c =
     (if c_label_enum c = [] then
        (case Cache_create_tables E c of
           (Inl e, c') \<Rightarrow> (Inl e, c')
         | (Inr u, c') \<Rightarrow> (Inr (c_label_enum c'), c'))
      else (Inr (c_label_enum c), c))"

definition Cache_index_table :: "env \<Rightarrow> 'v cache \<Rightarrow> (error + row list) \<times> 'v cache" where
  "Cache_index_table E c =
     (if length (c_index_table c) = 0 then
        (case Cache_create_tables E c of
           (Inl e, c') \<Rightarrow> (Inl e, c')
         | (Inr u, c') \<Rightarrow> (Inr (c_index_table c'), c'))
      else (Inr (c_index_table c), c))"

section \<open>LabelBatch and PairedBatch\<close>

text \<open>
  A batch is an OrderedDict of items with its source, size and label key, and for a
  PairedBatch the two index lists. The shape used by \<open>values()\<close> plays no part here.
\<close>

record 'v batch =
  b_items :: "(string \<times> 'v item) list"
  b_source :: "'v source"
  batch_size :: nat
  label_key :: string
  idx_A :: "nat list"
  idx_B :: "nat list"

definition LabelBatch_init :: "'v source \<Rightarrow> nat \<Rightarrow> string \<Rightarrow> 'v batch" where
  "LabelBatch_init source n lk =
     \<lparr>b_items = [], b_source = source, batch_size = n, label_key = lk, idx_A = [], idx_B = []\<rparr>"

fun LabelBatch_load :: "'v batch \<Rightarrow> nat \<Rightarrow> (error + unit) \<times> 'v batch" where
  "LabelBatch_load b 0 = (Inr (), b)"
| "LabelBatch_load b (Suc n) =
     (case source_next (b_source b) of
        (Inl e, s') \<Rightarrow> (Inl e, b\<lparr>b_source := s'\<rparr>)
      | (Inr (k, v), s') \<Rightarrow>
          LabelBatch_load (b\<lparr>b_source := s', b_items := AList.update k v (b_items b)\<rparr>) n)"

definition LabelBatch_refresh :: "'v batch \<Rightarrow> (error + unit) \<times> 'v batch" where
  "LabelBatch_refresh b = LabelBatch_load (b\<lparr>b_items := []\<rparr>) (batch_size b)"

text \<open>A list comprehension whose element expression may raise.\<close>

fun collect :: "('a \<Rightarrow> error + 'b) \<Rightarrow> 'a list \<Rightarrow> error + 'b list" where
  "collect g [] = Inr []"
| "collect g (x # xs) =
     (case g x of
        Inl e \<Rightarrow> Inl e
      | Inr y \<Rightarrow> (case collect g xs of Inl e \<Rightarrow> Inl e | Inr ys \<Rightarrow> Inr (y # ys)))"

definition LabelBatch_labels :: "'v batch \<Rightarrow> error + attr list" where
  "LabelBatch_labels b =
     collect (\<lambda>kv. case map_of (item_attrs (snd kv)) (label_key b) of
                      None \<Rightarrow> Inl MissingLabel
                    | Some l \<Rightarrow> Inr l)
             (b_items b)"

text \<open>
  The candidates of an anchor \<open>y\<close>: the indices with the same label, the anchor itself
  removed, or the indices with another label.
\<close>

definition same_candidates :: "attr list \<Rightarrow> nat \<Rightarrow> nat list" where
  "same_candidates ls y = remove1 y (filter (\<lambda>i. ls ! i = ls ! y) [0..<length ls])"

definition diff_candidates :: "attr list \<Rightarrow> nat \<Rightarrow> nat list" where
  "diff_candidates ls y = filter (\<lambda>i. ls ! i \<noteq> ls ! y) [0..<length ls]"

text \<open>
  One iteration of a pairing loop, with its two random draws. The anchor is appended to
  \<open>idx_A\<close> before the partner is chosen. Labels that are arrays give a mask that is not
  1-D, which cannot select from \<open>arange(N)\<close>.
\<close>

definition pair_step :: "bool \<Rightarrow> attr list \<Rightarrow> nat \<times> nat \<Rightarrow> 'v batch \<Rightarrow> error option \<times> 'v batch" where
  "pair_step same ls rr b =
     (case randint (length ls) (fst rr) of
        Inl e \<Rightarrow> (Some e, b)
      | Inr y \<Rightarrow>
          if list_ex is_array ls then (Some BadIndex, b)
          else
            let possible = (if same then same_candidates ls y else diff_candidates ls y);
                b1 = b\<lparr>idx_A := idx_A b @ [y]\<rparr>
            in (case choice possible (snd rr) of
                  Inl e \<Rightarrow> (Some e, b1)
                | Inr z \<Rightarrow> (None, b1\<lparr>idx_B := idx_B b1 @ [z]\<rparr>)))"

text \<open>The draws of \<open>n\<close> iterations, taken from a sequence of random numbers.\<close>

definition draws :: "(nat \<Rightarrow> nat) \<Rightarrow> nat \<Rightarrow> nat \<Rightarrow> (nat \<times> nat) list" where
  "draws rnd start n = map (\<lambda>j. (rnd (2 * (start + j)), rnd (2 * (start + j) + 1))) [0..<n]"

text \<open>The two loops of \<open>_pair\<close>, up to the truncation.\<close>

definition pair_loops :: "'v batch \<Rightarrow> (nat \<Rightarrow> nat) \<Rightarrow> error option \<times> 'v batch" where
  "pair_loops b rnd =
     (let b0 = b\<lparr>idx_A := [], idx_B := []\<rparr> in
      case LabelBatch_labels b0 of
        Inl e \<Rightarrow> (Some e, b0)
      | Inr ls \<Rightarrow>
          (case for_each (pair_step True ls) (draws rnd 0 (batch_size b0 div 2)) b0 of
             (Some e, b1) \<Rightarrow> (Some e, b1)
           | (None, b1) \<Rightarrow>
               for_each (pair_step False ls)
                 (draws rnd (batch_size b0 div 2) (batch_size b0 div 2)) b1))"

definition PairedBatch_pair :: "'v batch \<Rightarrow> (nat \<Rightarrow> nat) \<Rightarrow> (error + unit) \<times> 'v batch" where
  "PairedBatch_pair b rnd =
     (case pair_loops b rnd of
        (Some e, b2) \<Rightarrow> (Inl e, b2)
      | (None, b2) \<Rightarrow>
          let M = min (length (idx_A b2)) (length (idx_B b2))
          in (Inr (), b2\<lparr>idx_A := take M (idx_A b2), idx_B := take M (idx_B b2)\<rparr>))"





section \<open>Concrete values for evaluation\<close>

text \<open>A concrete choice of the missing helpers, and Sample items carrying one label.\<close>

definition env0 :: env where
  "env0 = \<lparr>KEY_MANIFEST = ''__KEY_MANIFEST__'', LABEL_ENUM = ''__LABEL_ENUM__'',
            INDEX_TABLE = ''__INDEX_TABLE__'',
            is_keylike = (\<lambda>k. k \<noteq> [] \<and> k \<noteq> ''__KEY_MANIFEST__'' \<and>
                               k \<noteq> ''__LABEL_ENUM__'' \<and> k \<noteq> ''__INDEX_TABLE__''),
            cleanse = (\<lambda>k. k),
            key_to_index = (\<lambda>k. int (length k))\<rparr>"

definition sample :: "string \<Rightarrow> unit item" where
  "sample l = \<lparr>item_value = (), item_type = ''Sample'', item_attrs = [(''chord'', AStr l)]\<rparr>"

text \<open>A source over a finite list of pairs, announcing their number.\<close>

definition list_source :: "(string \<times> 'v item) list \<Rightarrow> 'v source" where
  "list_source xs =
     \<lparr>s_items = (\<lambda>i. if i < length xs then Some (xs ! i) else None),
      s_pos = 0, num_items = length xs\<rparr>"

definition two_source :: "unit source" where
  "two_source = list_source [(''a'', sample ''x''), (''b'', sample ''y'')]"

definition three_source :: "unit source" where
  "three_source = list_source [(''a'', sample ''x''), (''b'', sample ''y''), (''c'', sample ''z'')]"

text \<open>A Cache of two items over \<open>two_source\<close>, which it exhausts.\<close>

definition two_cache :: "unit cache" where
  "two_cache = snd (Cache_init two_source 5 (1 / 4))"

text \<open>
  A Cache of size two over \<open>three_source\<close>, after its tables have been read once and one
  more item has been loaded.
\<close>

definition stale_cache :: "unit cache" where
  "stale_cache =
     snd (Cache_load (snd (Cache_label_enum env0 (snd (Cache_init three_source 2 (1 / 4))))) 1)"

text \<open>A source that yields the key \<open>a\<close> twice, and a batch of size two over it.\<close>

definition repeat_source :: "unit source" where
  "repeat_source = list_source [(''a'', sample ''x''), (''a'', sample ''y'')]"

definition repeat_batch :: "unit batch" where
  "repeat_batch = LabelBatch_init repeat_source 2 ''chord''"

text \<open>A batch of size two over \<open>two_source\<close>.\<close>

definition two_batch :: "unit batch" where
  "two_batch = LabelBatch_init two_source 2 ''chord''"



definition odd_batch :: "unit batch" where
  "odd_batch =
     LabelBatch_init (list_source [(''a'', sample ''x''), (''b'', sample ''x''),
                                   (''c'', sample ''y'')]) 3 ''chord''"

definition counting :: "nat \<Rightarrow> nat" where
  "counting i = i"

section \<open>Notions used to state the properties\<close>

text \<open>
  What a source yields on its next \<open>n\<close> pulls, whether it can serve all of them, where
  it stands afterwards, and a dictionary after storing a list of pairs one by one.
\<close>

definition pulled :: "'v source \<Rightarrow> nat \<Rightarrow> (string \<times> 'v item) list" where
  "pulled s n = List.map_filter (s_items s) [s_pos s..<s_pos s + n]"

definition supplies :: "'v source \<Rightarrow> nat \<Rightarrow> bool" where
  "supplies s n \<longleftrightarrow> list_all (\<lambda>i. s_items s i \<noteq> None) [s_pos s..<s_pos s + n]"

definition advance :: "'v source \<Rightarrow> nat \<Rightarrow> 'v source" where
  "advance s n = s\<lparr>s_pos := s_pos s + n\<rparr>"

definition store_all :: "(string \<times> 'w) list \<Rightarrow> (string \<times> 'w) list \<Rightarrow> (string \<times> 'w) list" where
  "store_all kvs al = fold (\<lambda>kv. AList.update (fst kv) (snd kv)) kvs al"

text \<open>
  A Sample item with the single label \<open>l\<close> under the label key \<open>lk\<close>, and the number of
  rows of an index table that carry a given label code.
\<close>

definition sample_item :: "'v \<Rightarrow> string \<Rightarrow> string \<Rightarrow> 'v item" where
  "sample_item v lk l = \<lparr>item_value = v, item_type = ''Sample'', item_attrs = [(lk, AStr l)]\<rparr>"

definition rows_with :: "nat \<Rightarrow> row list \<Rightarrow> nat" where
  "rows_with c rows = length (filter (\<lambda>r. row_code r = c) rows)"

text \<open>The store of the scenario: the items a, b, c with the labels x, y, x.\<close>

definition abc_file :: "unit h5file" where
  "abc_file = new_file\<lparr>f_disk := [(''a'', Item (sample_item () ''chord'' ''x'')),
                                   (''b'', Item (sample_item () ''chord'' ''y'')),
                                   (''c'', Item (sample_item () ''chord'' ''x''))]\<rparr>"

section \<open>Properties of the persistent store\<close>

lemma wf_env0: "wf_env env0"
  by (simp add: wf_env_def env0_def reserved_def)

lemma del_if_present:
  "(if map_of d k \<noteq> None then AList.delete k d else d) = AList.delete k d"
  by (simp add: map_of_eq_None_iff)

lemma disk_clear_persistent_tables:
  "f_disk (clear_persistent_tables E f) =
     AList.delete (INDEX_TABLE E) (AList.delete (LABEL_ENUM E)
       (AList.delete (KEY_MANIFEST E) (f_disk f)))"
  unfolding clear_persistent_tables_def clear_local_tables_def Let_def fold_simps del_if_present
  by simp

lemma map_of_clear_None:
  "map_of (f_disk f) k = None \<Longrightarrow> map_of (f_disk (clear_persistent_tables E f)) k = None"
  by (simp add: disk_clear_persistent_tables AList.delete_conv')

subsection \<open>Retrieval\<close>

lemma map_of_clear_reserved:
  "k \<in> reserved E \<Longrightarrow> map_of (f_disk (clear_persistent_tables E f)) k = None"
  by (auto simp: reserved_def disk_clear_persistent_tables AList.delete_conv')

lemma map_of_clear_other:
  "k \<notin> reserved E \<Longrightarrow>
   map_of (f_disk (clear_persistent_tables E f)) k = map_of (f_disk f) k"
  by (simp add: reserved_def disk_clear_persistent_tables AList.delete_conv')

lemma clear_persistent_tables_local:
  "f_keys (clear_persistent_tables E f) = [] \<and>
   f_label_enum (clear_persistent_tables E f) = [] \<and>
   f_index_table (clear_persistent_tables E f) = None"
  by (simp add: clear_persistent_tables_def clear_local_tables_def Let_def)

text \<open>What a rebuild that succeeded has left in the store.\<close>

lemma File_create_tables_Inr:
  assumes "File_create_tables E f = (Inr (), g)"
  shows "\<exists>ks en rows.
     for_each (cache_data E) (visititems (f_disk (clear_persistent_tables E f))) ([], ([], []))
       = (None, (ks, (en, rows))) \<and>
     asarray_ok rows \<and>
     f_disk g = f_disk (clear_persistent_tables E f) @
       [(INDEX_TABLE E, IndexTable rows), (KEY_MANIFEST E, KeyTable ks),
        (LABEL_ENUM E, EnumTable en)] \<and>
     f_keys g = ks \<and> f_label_enum g = en \<and> f_index_table g = None"
proof -
  note loc = clear_persistent_tables_local [of E f]
  obtain r ks en rows where
    scan: "for_each (cache_data E) (visititems (f_disk (clear_persistent_tables E f)))
       ([], ([], [])) = (r, (ks, (en, rows)))"
    by (metis prod.exhaust)
  from assms scan have r: "r = None" and ok: "asarray_ok rows"
    by (auto simp: File_create_tables_def Let_def loc split: option.splits if_splits)
  from assms scan r ok have
    "g = (clear_persistent_tables E f)\<lparr>f_keys := ks, f_label_enum := en,
       f_disk := f_disk (clear_persistent_tables E f) @
         [(INDEX_TABLE E, IndexTable rows), (KEY_MANIFEST E, KeyTable ks),
          (LABEL_ENUM E, EnumTable en)]\<rparr>"
    by (simp add: File_create_tables_def Let_def loc)
  then show ?thesis
    using scan r ok loc by (intro exI [of _ ks] exI [of _ en] exI [of _ rows]) simp
qed

text \<open>
  C6 (as the code has it). \<open>get\<close> fails with NotFound exactly when nothing is stored under
  the key; when an entry is stored, reserved or not, the assertion passes and \<open>get\<close>
  returns what the factory makes of that entry. There is no guard for reserved names: a
  reserved key fails while its table is absent, as it is right after the tables have been
  cleared, and after a rebuild \<open>get\<close> on each reserved key returns the table entry.
\<close>

theorem File_get_outcomes:
  "(File_get F f key = Inl NotFound \<longleftrightarrow> \<not> contains f key) \<and>
   (map_of (f_disk f) key = Some ob \<longrightarrow> File_get F f key = Inr (F ob)) \<and>
   (key \<in> reserved E \<longrightarrow> File_get F (clear_persistent_tables E f) key = Inl NotFound) \<and>
   (key \<in> reserved E \<longrightarrow> File_create_tables E f = (Inr (), g) \<longrightarrow>
      (\<exists>t. map_of (f_disk g) key = Some t \<and> (\<forall>it. t \<noteq> Item it) \<and>
           File_get F g key = Inr (F t)))"
proof (intro conjI impI)
  show "File_get F f key = Inl NotFound \<longleftrightarrow> \<not> contains f key"
    by (simp add: File_get_def contains_def split: option.splits)
next
  assume "map_of (f_disk f) key = Some ob"
  then show "File_get F f key = Inr (F ob)" by (simp add: File_get_def)
next
  assume "key \<in> reserved E"
  then show "File_get F (clear_persistent_tables E f) key = Inl NotFound"
    by (simp add: File_get_def map_of_clear_reserved)
next
  assume k: "key \<in> reserved E" and c: "File_create_tables E f = (Inr (), g)"
  from File_create_tables_Inr [OF c] obtain ks en rows where
    d: "f_disk g = f_disk (clear_persistent_tables E f) @
       [(INDEX_TABLE E, IndexTable rows), (KEY_MANIFEST E, KeyTable ks),
        (LABEL_ENUM E, EnumTable en)]"
    by blast
  have "map_of (f_disk g) key =
      map_of [(INDEX_TABLE E, IndexTable rows), (KEY_MANIFEST E, KeyTable ks),
              (LABEL_ENUM E, EnumTable en)] key"
    using map_of_clear_reserved [OF k, of f] by (simp add: d map_add_def)
  moreover have "\<exists>t. map_of [(INDEX_TABLE E, IndexTable rows), (KEY_MANIFEST E, KeyTable ks),
              (LABEL_ENUM E, EnumTable en)] key = Some t \<and> (\<forall>it. t \<noteq> Item it)"
    using k by (auto simp: reserved_def)
  ultimately obtain t where t: "map_of (f_disk g) key = Some t" "\<forall>it. t \<noteq> Item it"
    by auto
  then show "\<exists>t. map_of (f_disk g) key = Some t \<and> (\<forall>it. t \<noteq> Item it) \<and>
      File_get F g key = Inr (F t)"
    by (auto simp: File_get_def)
qed

text \<open>
  The four statements at the empty store, the reserved manifest key and a factory that
  keeps the entry as it is.
\<close>

theorem File_get_outcomes_witness:
  "KEY_MANIFEST env0 \<in> reserved env0 \<and>
   \<not> contains (new_file :: unit h5file) (KEY_MANIFEST env0) \<and>
   File_get (\<lambda>ob. ob) (new_file :: unit h5file) (KEY_MANIFEST env0) = Inl NotFound \<and>
   File_create_tables env0 (new_file :: unit h5file)
     = (Inr (), snd (File_create_tables env0 new_file)) \<and>
   map_of (f_disk (snd (File_create_tables env0 (new_file :: unit h5file)))) (KEY_MANIFEST env0)
     = Some (KeyTable []) \<and>
   File_get (\<lambda>ob. ob) (snd (File_create_tables env0 (new_file :: unit h5file)))
     (KEY_MANIFEST env0) = Inr (KeyTable []) \<and>
   File_get (\<lambda>ob. ob)
     (clear_persistent_tables env0 (snd (File_create_tables env0 (new_file :: unit h5file))))
     (KEY_MANIFEST env0) = Inl NotFound"
proof -
  let ?g = "snd (File_create_tables env0 (new_file :: unit h5file))"
  have 1: "KEY_MANIFEST env0 \<in> reserved env0" by (simp add: reserved_def)
  have 2: "\<not> contains (new_file :: unit h5file) (KEY_MANIFEST env0)"
    by (simp add: contains_def new_file_def)
  have 3: "File_create_tables env0 (new_file :: unit h5file) = (Inr (), ?g)"
    by (simp add: File_create_tables_def new_file_def env0_def
        clear_persistent_tables_def clear_local_tables_def asarray_ok_def visititems_def)
  have 4: "map_of (f_disk ?g) (KEY_MANIFEST env0) = Some (KeyTable [])"
    by (simp add: File_create_tables_def new_file_def env0_def
        clear_persistent_tables_def clear_local_tables_def asarray_ok_def visititems_def)
  note t = File_get_outcomes [of "\<lambda>ob. ob" new_file "KEY_MANIFEST env0" _ env0]
  note u = File_get_outcomes [of "\<lambda>ob. ob" ?g "KEY_MANIFEST env0" "KeyTable []" env0]
  have 5: "File_get (\<lambda>ob. ob) (new_file :: unit h5file) (KEY_MANIFEST env0) = Inl NotFound"
    using t 2 by blast
  have 6: "File_get (\<lambda>ob. ob) ?g (KEY_MANIFEST env0) = Inr (KeyTable [])"
    using u 4 by blast
  have 7: "File_get (\<lambda>ob. ob) (clear_persistent_tables env0 ?g) (KEY_MANIFEST env0)
      = Inl NotFound"
    using u 1 by blast
  show ?thesis
    using 1 2 3 4 5 6 7 by (intro conjI)
qed

text \<open>
  C6 (as the specification states it) fails: once \<open>keys()\<close> has written the tables of an
  empty store, the reserved manifest key is in the file, the assertion of \<open>get\<close> passes,
  and \<open>get\<close> does not fail with NotFound, whatever the factory then returns (here it
  returns nothing but a unit).
\<close>

theorem File_get_reserved_counterexample:
  "KEY_MANIFEST env0 \<in> reserved env0 \<and>
   contains (snd (File_keys env0 (new_file :: unit h5file))) (KEY_MANIFEST env0) \<and>
   File_get (\<lambda>ob. ()) (snd (File_keys env0 (new_file :: unit h5file))) (KEY_MANIFEST env0)
     = Inr () \<and>
   File_get (\<lambda>ob. ()) (snd (File_keys env0 (new_file :: unit h5file))) (KEY_MANIFEST env0)
     \<noteq> Inl NotFound"
  by (simp add: File_get_def File_keys_def File_create_tables_def new_file_def env0_def
      contains_def clear_persistent_tables_def clear_local_tables_def asarray_ok_def visititems_def
      reserved_def)

subsection \<open>Round trip of add and get\<close>

lemma map_of_filter_distinct:
  "distinct (map fst xs) \<Longrightarrow>
   map_of (filter (\<lambda>(k, v). P v) xs) k =
     (case map_of xs k of None \<Rightarrow> None | Some v \<Rightarrow> if P v then Some v else None)"
proof (induction xs)
  case Nil
  then show ?case by simp
next
  case (Cons x xs)
  obtain a b where x: "x = (a, b)" by (cases x)
  from Cons.prems x have nin: "a \<notin> fst ` set xs" by simp
  then have "map_of xs a = None" by (simp add: map_of_eq_None_iff)
  with Cons x show ?case by (auto split: option.splits)
qed

lemma map_of_partition_attrs:
  assumes "distinct (map fst as)"
  shows "map_of (partition_attrs as) = map_of as"
proof
  fix k
  show "map_of (partition_attrs as) k = map_of as k"
    unfolding partition_attrs_def
    by (cases "map_of as k")
       (simp_all add: map_add_def map_of_filter_distinct [OF assms] split: option.splits)
qed

lemma distinct_partition_attrs:
  assumes "distinct (map fst as)"
  shows "distinct (map fst (partition_attrs as))"
proof -
  have "fst ` {x \<in> set as. \<not> is_array (snd x)} \<inter> fst ` {x \<in> set as. is_array (snd x)} = {}"
    using eq_key_imp_eq_value [OF assms] by fastforce
  then show ?thesis
    unfolding partition_attrs_def using assms
    by (simp add: distinct_map_filter case_prod_unfold)
qed

lemma File_add_success:
  assumes "is_keylike E (cleanse E key)" "\<not> contains f key" "cleanse E key = key"
  shows "File_add E f key data =
     (Inr (), (clear_persistent_tables E f)\<lparr>f_disk := f_disk (clear_persistent_tables E f) @
        [(key, Item \<lparr>item_value = item_value data, item_type = item_type data,
                    item_attrs = filter (\<lambda>(k, v). written v) (partition_attrs (item_attrs data))\<rparr>)]\<rparr>)"
  using assms map_of_clear_None [of f key E]
  by (simp add: File_add_def contains_def Let_def)

lemma File_add_stored:
  assumes "wf_env E" "is_keylike E (cleanse E key)" "contains f (cleanse E key)"
  shows "File_add E f key data = (Inl AlreadyExists, clear_persistent_tables E f) \<and>
     map_of (f_disk (clear_persistent_tables E f)) (cleanse E key)
       = map_of (f_disk f) (cleanse E key)"
proof -
  have "cleanse E key \<notin> reserved E" using assms(1,2) by (simp add: wf_env_def)
  then have m: "map_of (f_disk (clear_persistent_tables E f)) (cleanse E key)
      = map_of (f_disk f) (cleanse E key)"
    by (rule map_of_clear_other)
  with assms(2,3) show ?thesis
    by (simp add: File_add_def contains_def Let_def)
qed

text \<open>
  C7 (as the code has it), for a valid key (key-like and in normal form). When nothing
  is stored under the key yet, \<open>add\<close> succeeds and \<open>get\<close> hands the factory an entry with
  the same value; of the label mapping exactly the entries that pass the guard of the
  copy loop are kept, so the mapping is the original one when no label is the empty
  string. When the key is already stored, \<open>add\<close> fails and the old entry stays, so \<open>get\<close>
  returns what it returned before.
\<close>

theorem File_add_get_roundtrip:
  assumes key: "is_keylike E key" "cleanse E key = key"
  shows "(\<not> contains f key \<longrightarrow> distinct (map fst (item_attrs data)) \<longrightarrow>
     fst (File_add E f key data) = Inr () \<and>
     (\<exists>d. File_get F (snd (File_add E f key data)) key = Inr (F (Item d)) \<and>
         item_value d = item_value data \<and>
         (\<forall>k. map_of (item_attrs d) k =
            (case map_of (item_attrs data) k of
               None \<Rightarrow> None
             | Some v \<Rightarrow> if written v then Some v else None)) \<and>
         ((\<forall>v \<in> snd ` set (item_attrs data). written v) \<longrightarrow>
            map_of (item_attrs d) = map_of (item_attrs data)))) \<and>
   (wf_env E \<longrightarrow> contains f key \<longrightarrow>
     fst (File_add E f key data) = Inl AlreadyExists \<and>
     map_of (f_disk (snd (File_add E f key data))) key = map_of (f_disk f) key \<and>
     File_get F (snd (File_add E f key data)) key = File_get F f key)"
proof (intro conjI impI)
  assume fresh: "\<not> contains f key" and dict: "distinct (map fst (item_attrs data))"
  let ?d = "\<lparr>item_value = item_value data, item_type = item_type data,
             item_attrs = filter (\<lambda>(k, v). written v) (partition_attrs (item_attrs data))\<rparr>"
  have add: "File_add E f key data =
     (Inr (), (clear_persistent_tables E f)\<lparr>f_disk := f_disk (clear_persistent_tables E f) @
        [(key, Item ?d)]\<rparr>)"
    using key fresh by (intro File_add_success) simp_all
  have none: "map_of (f_disk (clear_persistent_tables E f)) key = None"
    using fresh by (simp add: contains_def map_of_clear_None)
  have get: "File_get F (snd (File_add E f key data)) key = Inr (F (Item ?d))"
    by (simp add: add File_get_def map_add_def none)
  have attrs: "map_of (item_attrs ?d) k =
      (case map_of (item_attrs data) k of
         None \<Rightarrow> None
       | Some v \<Rightarrow> if written v then Some v else None)" for k
    by (simp add: map_of_filter_distinct [OF distinct_partition_attrs [OF dict]]
        map_of_partition_attrs [OF dict])
  have all: "map_of (item_attrs ?d) = map_of (item_attrs data)"
    if w: "\<forall>v \<in> snd ` set (item_attrs data). written v"
  proof
    fix k
    show "map_of (item_attrs ?d) k = map_of (item_attrs data) k"
    proof (cases "map_of (item_attrs data) k")
      case None
      then show ?thesis by (simp only: attrs) simp
    next
      case (Some v)
      then have "(k, v) \<in> set (item_attrs data)" by (rule map_of_SomeD)
      then have "written v" using w by force
      with Some show ?thesis by (simp only: attrs) simp
    qed
  qed
  show "fst (File_add E f key data) = Inr ()" by (simp add: add)
  show "\<exists>d. File_get F (snd (File_add E f key data)) key = Inr (F (Item d)) \<and>
         item_value d = item_value data \<and>
         (\<forall>k. map_of (item_attrs d) k =
            (case map_of (item_attrs data) k of
               None \<Rightarrow> None
             | Some v \<Rightarrow> if written v then Some v else None)) \<and>
         ((\<forall>v \<in> snd ` set (item_attrs data). written v) \<longrightarrow>
            map_of (item_attrs d) = map_of (item_attrs data))"
    using get attrs all by (intro exI [of _ ?d]) simp
next
  assume E: "wf_env E" and stored: "contains f key"
  from File_add_stored [of E key f data] E key stored
  have add: "File_add E f key data = (Inl AlreadyExists, clear_persistent_tables E f)"
    and m: "map_of (f_disk (clear_persistent_tables E f)) key = map_of (f_disk f) key"
    by simp_all
  show "fst (File_add E f key data) = Inl AlreadyExists" by (simp add: add)
  show "map_of (f_disk (snd (File_add E f key data))) key = map_of (f_disk f) key"
    by (simp add: add m)
  show "File_get F (snd (File_add E f key data)) key = File_get F f key"
    by (simp add: add m File_get_def)
qed

text \<open>
  Both cases at a concrete store: the key \<open>a\<close> is added to the empty store and read back,
  and a second \<open>add\<close> under \<open>a\<close> fails and leaves the first item in place. The factory
  keeps the entry as it is.
\<close>

theorem File_add_get_roundtrip_witness:
  "is_keylike env0 ''a'' \<and> cleanse env0 ''a'' = ''a'' \<and>
   \<not> contains (new_file :: unit h5file) ''a'' \<and>
   distinct (map fst (item_attrs (sample ''x''))) \<and>
   list_all written (map snd (item_attrs (sample ''x''))) \<and>
   fst (File_add env0 new_file ''a'' (sample ''x'')) = Inr () \<and>
   (\<exists>d. File_get (\<lambda>ob. ob) (snd (File_add env0 new_file ''a'' (sample ''x''))) ''a''
          = Inr (Item d) \<and>
        item_value d = item_value (sample ''x'') \<and>
        map_of (item_attrs d) = map_of (item_attrs (sample ''x''))) \<and>
   wf_env env0 \<and> contains (snd (File_add env0 new_file ''a'' (sample ''x''))) ''a'' \<and>
   fst (File_add env0 (snd (File_add env0 new_file ''a'' (sample ''x''))) ''a'' (sample ''z''))
     = Inl AlreadyExists \<and>
   File_get (\<lambda>ob. ob)
     (snd (File_add env0 (snd (File_add env0 new_file ''a'' (sample ''x''))) ''a'' (sample ''z'')))
     ''a''
     = File_get (\<lambda>ob. ob) (snd (File_add env0 new_file ''a'' (sample ''x''))) ''a''"
proof -
  let ?f = "snd (File_add env0 (new_file :: unit h5file) ''a'' (sample ''x''))"
  have 1: "is_keylike env0 ''a''" "cleanse env0 ''a'' = ''a''" by (simp_all add: env0_def)
  have 2: "\<not> contains (new_file :: unit h5file) ''a''" by (simp add: contains_def new_file_def)
  have 3: "distinct (map fst (item_attrs (sample ''x'')))" by (simp add: sample_def)
  have 4: "\<forall>v \<in> snd ` set (item_attrs (sample ''x'')). written v" by (simp add: sample_def)
  have 5: "contains ?f ''a''"
    by (simp add: File_add_def env0_def new_file_def contains_def
        clear_persistent_tables_def clear_local_tables_def)
  note a = File_add_get_roundtrip [OF 1, of new_file "sample ''x''" "\<lambda>ob. ob"]
  note b = File_add_get_roundtrip [OF 1, of ?f "sample ''z''" "\<lambda>ob. ob"]
  have A: "fst (File_add env0 new_file ''a'' (sample ''x'')) = Inr () \<and>
    (\<exists>d. File_get (\<lambda>ob. ob) ?f ''a'' = Inr (Item d) \<and>
        item_value d = item_value (sample ''x'') \<and>
        map_of (item_attrs d) = map_of (item_attrs (sample ''x'')))"
    using a 2 3 4 by blast
  have B: "fst (File_add env0 ?f ''a'' (sample ''z'')) = Inl AlreadyExists \<and>
    File_get (\<lambda>ob. ob) (snd (File_add env0 ?f ''a'' (sample ''z''))) ''a''
      = File_get (\<lambda>ob. ob) ?f ''a''"
    using b wf_env0 5 by blast
  have 6: "list_all written (map snd (item_attrs (sample ''x'')))" by (simp add: sample_def)
  show ?thesis
    using 1 2 3 5 6 A B wf_env0 by (intro conjI) blast+
qed

text \<open>
  C7 (as the specification states it) fails twice. A label that is the empty string is
  not written: the entry in the file, which is all that \<open>get\<close> can hand to the factory,
  has no label left. And a key that is already stored makes \<open>add\<close> fail, while the file
  keeps the old item.
\<close>

theorem File_add_get_roundtrip_counterexample:
  "fst (File_add env0 new_file ''a'' (sample '''')) = Inr () \<and>
   map_of (item_attrs (sample '''')) ''chord'' = Some (AStr '''') \<and>
   map_of (f_disk (snd (File_add env0 new_file ''a'' (sample '''')))) ''a''
     = Some (Item \<lparr>item_value = (), item_type = ''Sample'', item_attrs = []\<rparr>) \<and>
   File_get (\<lambda>ob. ob) (snd (File_add env0 new_file ''a'' (sample ''''))) ''a''
     = Inr (Item \<lparr>item_value = (), item_type = ''Sample'', item_attrs = []\<rparr>) \<and>
   fst (File_add env0 (snd (File_add env0 new_file ''a'' (sample ''x''))) ''a'' (sample ''z''))
     = Inl AlreadyExists \<and>
   File_get (\<lambda>ob. ob)
     (snd (File_add env0 (snd (File_add env0 new_file ''a'' (sample ''x''))) ''a''
       (sample ''z''))) ''a'' = Inr (Item (sample ''x''))"
  by (simp add: File_add_def File_get_def env0_def new_file_def sample_def contains_def
      clear_persistent_tables_def clear_local_tables_def partition_attrs_def)

section \<open>Properties of sources and loading\<close>

lemma supplies_0 [simp]: "supplies s 0"
  by (simp add: supplies_def)

lemma pulled_0 [simp]: "pulled s 0 = []"
  by (simp add: pulled_def List.map_filter_simps)

lemma advance_0 [simp]: "advance s 0 = s"
  by (simp add: advance_def)

lemma upt_shift: "[p..<p + Suc n] = p # [Suc p..<Suc p + n]"
  by (subst upt_rec) simp

lemma length_update:
  "length (AList.update k v al) = (if k \<in> fst ` set al then length al else Suc (length al))"
  by (induction al) auto

lemma supplies_Suc:
  "supplies s (Suc n) \<longleftrightarrow>
     (\<exists>kv. s_items s (s_pos s) = Some kv) \<and> supplies (advance s 1) n"
  unfolding supplies_def advance_def upt_shift by auto

lemma pulled_Suc:
  "s_items s (s_pos s) = Some kv \<Longrightarrow> pulled s (Suc n) = kv # pulled (advance s 1) n"
  unfolding pulled_def advance_def upt_shift by (simp add: List.map_filter_simps)

lemma advance_advance: "advance (advance s m) n = advance s (m + n)"
  by (simp add: advance_def)

lemma source_next_Some:
  "s_items s (s_pos s) = Some kv \<Longrightarrow> source_next s = (Inr kv, advance s 1)"
  by (simp add: source_next_def advance_def)

lemma source_next_None:
  "s_items s (s_pos s) = None \<Longrightarrow> source_next s = (Inl SourceExhausted, s)"
  by (simp add: source_next_def)

lemma Cache_load_supplied:
  "supplies (c_source c) n \<Longrightarrow>
   Cache_load c n =
     (Inr (), c\<lparr>c_source := advance (c_source c) n,
                c_items := store_all (pulled (c_source c) n) (c_items c)\<rparr>)"
proof (induction n arbitrary: c)
  case 0
  then show ?case by (simp add: store_all_def)
next
  case (Suc n)
  from Suc.prems obtain kv where kv: "s_items (c_source c) (s_pos (c_source c)) = Some kv"
    and rest: "supplies (advance (c_source c) 1) n"
    by (auto simp: supplies_Suc)
  obtain k v where [simp]: "kv = (k, v)" by (cases kv)
  let ?c = "c\<lparr>c_source := advance (c_source c) 1, c_items := AList.update k v (c_items c)\<rparr>"
  have "Cache_load c (Suc n) = Cache_load ?c n"
    using kv by (simp add: source_next_Some)
  also have "\<dots> = (Inr (), ?c\<lparr>c_source := advance (c_source ?c) n,
                c_items := store_all (pulled (c_source ?c) n) (c_items ?c)\<rparr>)"
    using rest by (intro Suc.IH) simp
  finally show ?case
    using kv by (simp add: pulled_Suc advance_advance store_all_def)
qed

lemma Cache_load_exhausted:
  "\<not> supplies (c_source c) n \<Longrightarrow> fst (Cache_load c n) = Inl SourceExhausted"
proof (induction n arbitrary: c)
  case 0
  then show ?case by simp
next
  case (Suc n)
  show ?case
  proof (cases "s_items (c_source c) (s_pos (c_source c))")
    case None
    then show ?thesis by (simp add: source_next_None)
  next
    case (Some kv)
    obtain k v where [simp]: "kv = (k, v)" by (cases kv)
    let ?c = "c\<lparr>c_source := advance (c_source c) 1, c_items := AList.update k v (c_items c)\<rparr>"
    have "\<not> supplies (c_source ?c) n" using Suc.prems Some by (simp add: supplies_Suc)
    then have "fst (Cache_load ?c n) = Inl SourceExhausted" by (rule Suc.IH)
    then show ?thesis using Some by (simp add: source_next_Some)
  qed
qed

lemma length_store_all_le: "length (store_all kvs al) \<le> length al + length kvs"
proof (induction kvs arbitrary: al)
  case Nil
  then show ?case by (simp add: store_all_def)
next
  case (Cons kv kvs)
  have "length (store_all kvs (AList.update (fst kv) (snd kv) al))
      \<le> length (AList.update (fst kv) (snd kv) al) + length kvs"
    by (rule Cons.IH)
  also have "\<dots> \<le> Suc (length al) + length kvs"
    by (simp add: length_update)
  finally show ?case by (simp add: store_all_def)
qed

lemma keys_store_all: "fst ` set (store_all kvs al) = fst ` set kvs \<union> fst ` set al"
  by (induction kvs arbitrary: al) (auto simp: store_all_def AList.dom_update)

lemma length_store_all_distinct:
  "distinct (map fst kvs) \<Longrightarrow> fst ` set kvs \<inter> fst ` set al = {} \<Longrightarrow>
   length (store_all kvs al) = length al + length kvs"
proof (induction kvs arbitrary: al)
  case Nil
  then show ?case by (simp add: store_all_def)
next
  case (Cons kv kvs)
  let ?al = "AList.update (fst kv) (snd kv) al"
  have new: "fst kv \<notin> fst ` set al" using Cons.prems by auto
  have "fst ` set kvs \<inter> fst ` set ?al = {}"
    using Cons.prems by (auto simp: AList.dom_update)
  moreover have "distinct (map fst kvs)" using Cons.prems by simp
  ultimately have "length (store_all kvs ?al) = length ?al + length kvs"
    by (rule Cons.IH [rotated])
  then show ?case using new by (simp add: store_all_def length_update)
qed

lemma length_pulled: "supplies s n \<Longrightarrow> length (pulled s n) = n"
proof (induction n arbitrary: s)
  case 0
  then show ?case by simp
next
  case (Suc n)
  then obtain kv where "s_items s (s_pos s) = Some kv" "supplies (advance s 1) n"
    by (auto simp: supplies_Suc)
  then show ?case using Suc.IH by (simp add: pulled_Suc)
qed

section \<open>Properties of the Cache\<close>

lemma binomial1_zero: "0 \<le> u \<Longrightarrow> binomial1 0 u = Inr False"
  by (simp add: binomial1_def)

lemma binomial1_one: "u < 1 \<Longrightarrow> binomial1 1 u = Inr True"
  by (simp add: binomial1_def)

lemma binomial1_miss: "0 \<le> p \<Longrightarrow> p \<le> 1 \<Longrightarrow> p \<le> u \<Longrightarrow> binomial1 p u = Inr False"
  by (simp add: binomial1_def)

lemma binomial1_hit: "0 \<le> p \<Longrightarrow> p \<le> 1 \<Longrightarrow> u < p \<Longrightarrow> binomial1 p u = Inr True"
  by (simp add: binomial1_def)

lemma Cache_refresh_miss:
  "0 \<le> p \<Longrightarrow> p \<le> 1 \<Longrightarrow> p \<le> u \<Longrightarrow> Cache_refresh c key (Some p) u = (Inr (), c)"
  by (simp add: Cache_refresh_def binomial1_miss)

lemma Cache_refresh_hit:
  "0 \<le> p \<Longrightarrow> p \<le> 1 \<Longrightarrow> u < p \<Longrightarrow>
   Cache_refresh c key (Some p) u =
     (case Cache_remove c key of
        (Inl e, c') \<Rightarrow> (Inl e, c')
      | (Inr u', c') \<Rightarrow> Cache_load c' 1)"
  by (simp add: Cache_refresh_def binomial1_hit)

lemma Cache_init_fits:
  assumes "num_items s < cache_size" "supplies s (num_items s)"
  shows "Cache_init s cache_size p =
     (Inr (), \<lparr>c_items = store_all (pulled s (num_items s)) [],
               c_source = advance s (num_items s), c_refresh_prob = p,
               c_keys = [], c_label_enum = [], c_index_table = []\<rparr>)"
  using assms
  by (simp add: Cache_init_def Cache_load_supplied Cache_clear_tables_def)

lemma Cache_remove_absent:
  "map_of (c_items c) key = None \<Longrightarrow> Cache_remove c key = (Inl NotFound, c)"
  by (simp add: Cache_remove_def)

lemma Cache_remove_resident:
  "map_of (c_items c) key \<noteq> None \<Longrightarrow>
   Cache_remove c key =
     (Inr (), Cache_clear_tables (c\<lparr>c_items := AList.delete key (c_items c)\<rparr>))"
  by (simp add: Cache_remove_def)

lemma Cache_refresh_evicts:
  assumes "map_of (c_items c) key \<noteq> None" "0 \<le> p" "p \<le> 1" "u < p"
  shows "Cache_refresh c key (Some p) u =
     Cache_load (Cache_clear_tables (c\<lparr>c_items := AList.delete key (c_items c)\<rparr>)) 1"
  using assms by (simp add: Cache_refresh_hit Cache_remove_resident)

lemma Cache_load_one:
  "Cache_load c 1 =
     (case s_items (c_source c) (s_pos (c_source c)) of
        None \<Rightarrow> (Inl SourceExhausted, c)
      | Some kv \<Rightarrow> (Inr (), c\<lparr>c_source := advance (c_source c) 1,
                              c_items := AList.update (fst kv) (snd kv) (c_items c)\<rparr>))"
proof (cases "s_items (c_source c) (s_pos (c_source c))")
  case None
  then have "source_next (c_source c) = (Inl SourceExhausted, c_source c)"
    by (rule source_next_None)
  then show ?thesis using None by simp
next
  case (Some kv)
  then have "source_next (c_source c) = (Inr kv, advance (c_source c) 1)"
    by (rule source_next_Some)
  then show ?thesis using Some by (cases kv) simp
qed

lemma distinct_store_all:
  "distinct (map fst al) \<Longrightarrow> distinct (map fst (store_all kvs al))"
proof (induction kvs arbitrary: al)
  case Nil
  then show ?case by (simp add: store_all_def)
next
  case (Cons kv kvs)
  have "distinct (map fst (AList.update (fst kv) (snd kv) al))"
    using Cons.prems by (rule AList.distinct_update)
  then have "distinct (map fst (store_all kvs (AList.update (fst kv) (snd kv) al)))"
    by (rule Cons.IH)
  then show ?case by (simp add: store_all_def)
qed

lemma length_delete_resident:
  "distinct (map fst al) \<Longrightarrow> map_of al key \<noteq> None \<Longrightarrow>
   Suc (length (AList.delete key al)) = length al"
proof (induction al)
  case Nil
  then show ?case by simp
next
  case (Cons x al)
  obtain a b where x: "x = (a, b)" by (cases x)
  show ?case
  proof (cases "a = key")
    case True
    then have "key \<notin> fst ` set al" using Cons.prems(1) x by auto
    then have "AList.delete key al = al" by (simp add: AList.delete_id)
    then show ?thesis using True x by simp
  next
    case False
    then have "map_of al key \<noteq> None" using Cons.prems(2) x by auto
    with Cons have "Suc (length (AList.delete key al)) = length al" by simp
    then show ?thesis using False x by simp
  qed
qed

lemma choice_resident:
  assumes "al \<noteq> []"
  shows "\<exists>key. choice (map fst al) r = Inr key \<and> map_of al key \<noteq> None"
proof -
  have "r mod length al < length al" using assms by simp
  then have "map fst al ! (r mod length al) \<in> fst ` set al"
    by (metis length_map list.set_map nth_mem)
  then have "map_of al (map fst al ! (r mod length al)) \<noteq> None"
    by (simp add: map_of_eq_None_iff)
  then show ?thesis using assms by (simp add: choice_def)
qed

text \<open>
  C2 (as the code has it). A source that announces fewer items than the requested size
  and serves that many pulls with distinct keys gives a resident set of exactly
  \<open>num_items\<close> items. A later refresh with an explicit probability follows that
  probability, in this Cache as in any other. When the draw fails, as it always does for
  \<open>p = 0\<close>, \<open>refresh\<close> and \<open>refresh_rand\<close> evict nothing and load nothing. When the draw
  succeeds, as it always does for \<open>p = 1\<close>, \<open>refresh\<close> on a resident key evicts that key,
  which leaves \<open>num_items - 1\<close> resident items, clears the tables and pulls once more
  from the source, which stands behind its announced items: it fails there when the
  source has no further item and stores the pair pulled otherwise. \<open>refresh_rand\<close> on a
  Cache that is not empty does the same with the resident key it has chosen.
\<close>

theorem Cache_fits_source:
  assumes "num_items s < cache_size" "supplies s (num_items s)"
    and "distinct (map fst (pulled s (num_items s)))"
  shows "\<exists>c. Cache_init s cache_size p0 = (Inr (), c) \<and>
          length (c_items c) = num_items s \<and>
          c_items c = store_all (pulled s (num_items s)) [] \<and>
          c_source c = advance s (num_items s) \<and>
          (\<forall>key p u. 0 \<le> p \<and> p \<le> 1 \<and> p \<le> u \<longrightarrow>
               Cache_refresh c key (Some p) u = (Inr (), c)) \<and>
          (\<forall>key u. 0 \<le> u \<longrightarrow> Cache_refresh c key (Some 0) u = (Inr (), c)) \<and>
          (\<forall>r p u. 0 < num_items s \<and> 0 \<le> p \<and> p \<le> 1 \<and> p \<le> u \<longrightarrow>
               Cache_refresh_rand c (Some p) r u = (Inr (), c)) \<and>
          (\<forall>r u. 0 < num_items s \<and> 0 \<le> u \<longrightarrow>
               Cache_refresh_rand c (Some 0) r u = (Inr (), c)) \<and>
          (\<forall>key p u. map_of (c_items c) key \<noteq> None \<and> 0 \<le> p \<and> p \<le> 1 \<and> u < p \<longrightarrow>
               Suc (length (AList.delete key (c_items c))) = num_items s \<and>
               map_of (AList.delete key (c_items c)) key = None \<and>
               Cache_refresh c key (Some p) u =
                 (case s_items s (s_pos s + num_items s) of
                    None \<Rightarrow>
                      (Inl SourceExhausted,
                       c\<lparr>c_items := AList.delete key (c_items c),
                         c_keys := [], c_label_enum := [], c_index_table := []\<rparr>)
                  | Some kv \<Rightarrow>
                      (Inr (),
                       c\<lparr>c_items := AList.update (fst kv) (snd kv)
                                      (AList.delete key (c_items c)),
                         c_source := advance s (num_items s + 1),
                         c_keys := [], c_label_enum := [], c_index_table := []\<rparr>)) \<and>
               snd (Cache_refresh c key (Some p) u) \<noteq> c) \<and>
          (\<forall>key u. map_of (c_items c) key \<noteq> None \<and> u < 1 \<longrightarrow>
               Cache_refresh c key (Some 1) u =
                 Cache_load (Cache_clear_tables
                   (c\<lparr>c_items := AList.delete key (c_items c)\<rparr>)) 1 \<and>
               snd (Cache_refresh c key (Some 1) u) \<noteq> c) \<and>
          (\<forall>r p u. 0 < num_items s \<and> 0 \<le> p \<and> p \<le> 1 \<and> u < p \<longrightarrow>
               (\<exists>key. choice (map fst (c_items c)) r = Inr key \<and>
                  map_of (c_items c) key \<noteq> None \<and>
                  Cache_refresh_rand c (Some p) r u = Cache_refresh c key (Some p) u \<and>
                  Cache_refresh_rand c (Some p) r u =
                    Cache_load (Cache_clear_tables
                      (c\<lparr>c_items := AList.delete key (c_items c)\<rparr>)) 1 \<and>
                  snd (Cache_refresh_rand c (Some p) r u) \<noteq> c))"
proof -
  let ?c = "\<lparr>c_items = store_all (pulled s (num_items s)) [],
               c_source = advance s (num_items s), c_refresh_prob = p0,
               c_keys = [], c_label_enum = [], c_index_table = []\<rparr>"
  have init: "Cache_init s cache_size p0 = (Inr (), ?c)"
    using assms(1,2) by (rule Cache_init_fits)
  have len: "length (c_items ?c) = num_items s"
    using length_store_all_distinct [OF assms(3), of "[]"] length_pulled [OF assms(2)]
    by simp
  have dist: "distinct (map fst (c_items ?c))"
    using distinct_store_all [of "[]" "pulled s (num_items s)"] by simp
  have miss: "Cache_refresh ?c key (Some p) u = (Inr (), ?c)"
    if "0 \<le> p \<and> p \<le> 1 \<and> p \<le> u" for key p u
    using that by (intro Cache_refresh_miss) simp_all
  have zero: "Cache_refresh ?c key (Some 0) u = (Inr (), ?c)" if "0 \<le> u" for key u
    using that by (intro Cache_refresh_miss) simp_all
  have rand_eq: "\<exists>key. choice (map fst (c_items ?c)) r = Inr key \<and>
      map_of (c_items ?c) key \<noteq> None \<and>
      Cache_refresh_rand ?c q r u = Cache_refresh ?c key q u"
    if "0 < num_items s" for r q u
  proof -
    from that len have "c_items ?c \<noteq> []" by auto
    from choice_resident [OF this, of r] obtain key where
      k: "choice (map fst (c_items ?c)) r = Inr key" "map_of (c_items ?c) key \<noteq> None"
      by blast
    then have "Cache_refresh_rand ?c q r u = Cache_refresh ?c key q u"
      by (simp add: Cache_refresh_rand_def)
    with k show ?thesis by blast
  qed
  have rand_miss: "Cache_refresh_rand ?c (Some p) r u = (Inr (), ?c)"
    if "0 < num_items s \<and> 0 \<le> p \<and> p \<le> 1 \<and> p \<le> u" for r p u
  proof -
    from that rand_eq [of r "Some p" u] obtain key where
      "Cache_refresh_rand ?c (Some p) r u = Cache_refresh ?c key (Some p) u" by blast
    then show ?thesis using that miss [of p u key] by simp
  qed
  have rand_zero: "Cache_refresh_rand ?c (Some 0) r u = (Inr (), ?c)"
    if "0 < num_items s \<and> 0 \<le> u" for r u
    using that by (intro rand_miss) simp
  have evict: "Cache_refresh ?c key (Some p) u =
      Cache_load (Cache_clear_tables (?c\<lparr>c_items := AList.delete key (c_items ?c)\<rparr>)) 1"
    if "map_of (c_items ?c) key \<noteq> None \<and> 0 \<le> p \<and> p \<le> 1 \<and> u < p" for key p u
    using that by (intro Cache_refresh_evicts) blast+
  have less: "Suc (length (AList.delete key (c_items ?c))) = num_items s"
    if "map_of (c_items ?c) key \<noteq> None" for key
    using length_delete_resident [OF dist that] len by simp
  have gone: "map_of (AList.delete key (c_items ?c)) key = None" for key
    by (simp add: AList.delete_conv')
  have pos: "s_pos (advance s (num_items s)) = s_pos s + num_items s"
    by (simp add: advance_def)
  have out: "Cache_refresh ?c key (Some p) u =
      (case s_items s (s_pos s + num_items s) of
         None \<Rightarrow>
           (Inl SourceExhausted,
            ?c\<lparr>c_items := AList.delete key (c_items ?c),
              c_keys := [], c_label_enum := [], c_index_table := []\<rparr>)
       | Some kv \<Rightarrow>
           (Inr (),
            ?c\<lparr>c_items := AList.update (fst kv) (snd kv) (AList.delete key (c_items ?c)),
              c_source := advance s (num_items s + 1),
              c_keys := [], c_label_enum := [], c_index_table := []\<rparr>))"
    if "map_of (c_items ?c) key \<noteq> None \<and> 0 \<le> p \<and> p \<le> 1 \<and> u < p" for key p u
    unfolding evict [OF that] Cache_load_one
    by (simp add: Cache_clear_tables_def advance_def split: option.splits)
  have changed: "snd (Cache_refresh ?c key (Some p) u) \<noteq> ?c"
    if h: "map_of (c_items ?c) key \<noteq> None \<and> 0 \<le> p \<and> p \<le> 1 \<and> u < p" for key p u
  proof (cases "s_items s (s_pos s + num_items s)")
    case None
    then have "length (c_items (snd (Cache_refresh ?c key (Some p) u)))
        = length (AList.delete key (c_items ?c))"
      unfolding out [OF h] by simp
    with less [of key] h len show ?thesis by auto
  next
    case (Some kv)
    then have "s_pos (c_source (snd (Cache_refresh ?c key (Some p) u)))
        = s_pos s + num_items s + 1"
      unfolding out [OF h] by (simp add: advance_def)
    then show ?thesis using pos by auto
  qed
  have one: "Cache_refresh ?c key (Some 1) u =
        Cache_load (Cache_clear_tables (?c\<lparr>c_items := AList.delete key (c_items ?c)\<rparr>)) 1 \<and>
      snd (Cache_refresh ?c key (Some 1) u) \<noteq> ?c"
    if "map_of (c_items ?c) key \<noteq> None \<and> u < 1" for key u
    using that evict [of key 1 u] changed [of key 1 u] by simp
  have rand_hit: "\<exists>key. choice (map fst (c_items ?c)) r = Inr key \<and>
        map_of (c_items ?c) key \<noteq> None \<and>
        Cache_refresh_rand ?c (Some p) r u = Cache_refresh ?c key (Some p) u \<and>
        Cache_refresh_rand ?c (Some p) r u =
          Cache_load (Cache_clear_tables (?c\<lparr>c_items := AList.delete key (c_items ?c)\<rparr>)) 1 \<and>
        snd (Cache_refresh_rand ?c (Some p) r u) \<noteq> ?c"
    if h: "0 < num_items s \<and> 0 \<le> p \<and> p \<le> 1 \<and> u < p" for r p u
  proof -
    from h rand_eq [of r "Some p" u] obtain key where
      k: "choice (map fst (c_items ?c)) r = Inr key" "map_of (c_items ?c) key \<noteq> None"
        "Cache_refresh_rand ?c (Some p) r u = Cache_refresh ?c key (Some p) u"
      by blast
    from k(2) h have hk: "map_of (c_items ?c) key \<noteq> None \<and> 0 \<le> p \<and> p \<le> 1 \<and> u < p"
      by blast
    have "Cache_refresh_rand ?c (Some p) r u =
          Cache_load (Cache_clear_tables (?c\<lparr>c_items := AList.delete key (c_items ?c)\<rparr>)) 1"
      unfolding k(3) by (rule evict [OF hk])
    moreover have "snd (Cache_refresh_rand ?c (Some p) r u) \<noteq> ?c"
      unfolding k(3) by (rule changed [OF hk])
    ultimately show ?thesis using k by blast
  qed
  show ?thesis
  proof (intro exI [of _ ?c] conjI allI impI)
    show "Cache_init s cache_size p0 = (Inr (), ?c)" by (rule init)
    show "length (c_items ?c) = num_items s" by (rule len)
    show "c_items ?c = store_all (pulled s (num_items s)) []" by simp
    show "c_source ?c = advance s (num_items s)" by simp
    show "Cache_refresh ?c key (Some p) u = (Inr (), ?c)"
      if "0 \<le> p \<and> p \<le> 1 \<and> p \<le> u" for key p u
      using that by (rule miss)
    show "Cache_refresh ?c key (Some 0) u = (Inr (), ?c)" if "0 \<le> u" for key u
      using that by (rule zero)
    show "Cache_refresh_rand ?c (Some p) r u = (Inr (), ?c)"
      if "0 < num_items s \<and> 0 \<le> p \<and> p \<le> 1 \<and> p \<le> u" for r p u
      using that by (rule rand_miss)
    show "Cache_refresh_rand ?c (Some 0) r u = (Inr (), ?c)"
      if "0 < num_items s \<and> 0 \<le> u" for r u
      using that by (rule rand_zero)
    show "Suc (length (AList.delete key (c_items ?c))) = num_items s"
      if "map_of (c_items ?c) key \<noteq> None \<and> 0 \<le> p \<and> p \<le> 1 \<and> u < p" for key p u
      using that less by blast
    show "map_of (AList.delete key (c_items ?c)) key = None" for key
      by (rule gone)
    show "Cache_refresh ?c key (Some p) u =
      (case s_items s (s_pos s + num_items s) of
         None \<Rightarrow>
           (Inl SourceExhausted,
            ?c\<lparr>c_items := AList.delete key (c_items ?c),
              c_keys := [], c_label_enum := [], c_index_table := []\<rparr>)
       | Some kv \<Rightarrow>
           (Inr (),
            ?c\<lparr>c_items := AList.update (fst kv) (snd kv) (AList.delete key (c_items ?c)),
              c_source := advance s (num_items s + 1),
              c_keys := [], c_label_enum := [], c_index_table := []\<rparr>))"
      if "map_of (c_items ?c) key \<noteq> None \<and> 0 \<le> p \<and> p \<le> 1 \<and> u < p" for key p u
      using that by (rule out)
    show "snd (Cache_refresh ?c key (Some p) u) \<noteq> ?c"
      if "map_of (c_items ?c) key \<noteq> None \<and> 0 \<le> p \<and> p \<le> 1 \<and> u < p" for key p u
      using that by (rule changed)
    show "Cache_refresh ?c key (Some 1) u =
        Cache_load (Cache_clear_tables (?c\<lparr>c_items := AList.delete key (c_items ?c)\<rparr>)) 1"
      if "map_of (c_items ?c) key \<noteq> None \<and> u < 1" for key u
      using one [OF that] by blast
    show "snd (Cache_refresh ?c key (Some 1) u) \<noteq> ?c"
      if "map_of (c_items ?c) key \<noteq> None \<and> u < 1" for key u
      using one [OF that] by blast
    show "\<exists>key. choice (map fst (c_items ?c)) r = Inr key \<and>
        map_of (c_items ?c) key \<noteq> None \<and>
        Cache_refresh_rand ?c (Some p) r u = Cache_refresh ?c key (Some p) u \<and>
        Cache_refresh_rand ?c (Some p) r u =
          Cache_load (Cache_clear_tables (?c\<lparr>c_items := AList.delete key (c_items ?c)\<rparr>)) 1 \<and>
        snd (Cache_refresh_rand ?c (Some p) r u) \<noteq> ?c"
      if "0 < num_items s \<and> 0 \<le> p \<and> p \<le> 1 \<and> u < p" for r p u
      using that by (rule rand_hit)
  qed
qed

lemma two_cache_eq:
  "two_cache = \<lparr>c_items = [(''a'', sample ''x''), (''b'', sample ''y'')],
       c_source = advance two_source 2, c_refresh_prob = 1 / 4,
       c_keys = [], c_label_enum = [], c_index_table = []\<rparr>"
proof -
  have 1: "num_items two_source < 5" by (simp add: two_source_def list_source_def)
  have 2: "supplies two_source (num_items two_source)" by code_simp
  have 3: "num_items two_source = 2" by (simp add: two_source_def list_source_def)
  have 4: "store_all (pulled two_source 2) [] = [(''a'', sample ''x''), (''b'', sample ''y'')]"
    by code_simp
  show ?thesis
    unfolding two_cache_def Cache_init_fits [OF 1 2] by (simp add: 3 4)
qed

text \<open>
  The statement at a source of two items and a requested size of five: the Cache holds
  both items; a refresh of the resident key \<open>a\<close> changes nothing when the draw fails
  (with \<open>p = 0\<close>, and with \<open>p = 1/2\<close> and the draw \<open>3/4\<close>), and with \<open>p = 1\<close> it evicts
  \<open>a\<close>, which leaves one item, and finds the source exhausted.
\<close>

theorem Cache_fits_source_witness:
  "num_items two_source < 5 \<and> supplies two_source (num_items two_source) \<and>
   distinct (map fst (pulled two_source (num_items two_source))) \<and>
   Cache_init two_source 5 (1 / 4) = (Inr (), two_cache) \<and>
   length (c_items two_cache) = num_items two_source \<and>
   Cache_refresh two_cache ''a'' (Some 0) 0 = (Inr (), two_cache) \<and>
   Cache_refresh two_cache ''a'' (Some (1 / 2)) (3 / 4) = (Inr (), two_cache) \<and>
   Cache_refresh_rand two_cache (Some 0) 3 0 = (Inr (), two_cache) \<and>
   map_of (c_items two_cache) ''a'' = Some (sample ''x'') \<and>
   Suc (length (AList.delete ''a'' (c_items two_cache))) = num_items two_source \<and>
   s_items two_source (s_pos two_source + num_items two_source) = None \<and>
   fst (Cache_refresh two_cache ''a'' (Some 1) 0) = Inl SourceExhausted \<and>
   snd (Cache_refresh two_cache ''a'' (Some 1) 0) \<noteq> two_cache \<and>
   snd (Cache_refresh_rand two_cache (Some 1) 3 0) \<noteq> two_cache"
proof -
  have 1: "num_items two_source < 5" by (simp add: two_source_def list_source_def)
  have 2: "supplies two_source (num_items two_source)" by code_simp
  have 3: "distinct (map fst (pulled two_source (num_items two_source)))" by code_simp
  have n: "0 < num_items two_source" by (simp add: two_source_def list_source_def)
  have e: "s_items two_source (s_pos two_source + num_items two_source) = None"
    by (simp add: two_source_def list_source_def)
  have r: "map_of (c_items two_cache) ''a'' = Some (sample ''x'')"
    by (simp add: two_cache_eq)
  from Cache_fits_source [OF 1 2 3, of "1 / 4"] obtain c where
    i: "Cache_init two_source 5 (1 / 4) = (Inr (), c)"
    and l: "length (c_items c) = num_items two_source"
    and m: "\<forall>key p u. 0 \<le> p \<and> p \<le> 1 \<and> p \<le> u \<longrightarrow>
               Cache_refresh c key (Some p) u = (Inr (), c)"
    and z: "\<forall>key u. 0 \<le> u \<longrightarrow> Cache_refresh c key (Some 0) u = (Inr (), c)"
    and rz: "\<forall>r u. 0 < num_items two_source \<and> 0 \<le> u \<longrightarrow>
               Cache_refresh_rand c (Some 0) r u = (Inr (), c)"
    and h: "\<forall>key p u. map_of (c_items c) key \<noteq> None \<and> 0 \<le> p \<and> p \<le> 1 \<and> u < p \<longrightarrow>
               Suc (length (AList.delete key (c_items c))) = num_items two_source \<and>
               map_of (AList.delete key (c_items c)) key = None \<and>
               Cache_refresh c key (Some p) u =
                 (case s_items two_source (s_pos two_source + num_items two_source) of
                    None \<Rightarrow>
                      (Inl SourceExhausted,
                       c\<lparr>c_items := AList.delete key (c_items c),
                         c_keys := [], c_label_enum := [], c_index_table := []\<rparr>)
                  | Some kv \<Rightarrow>
                      (Inr (),
                       c\<lparr>c_items := AList.update (fst kv) (snd kv)
                                      (AList.delete key (c_items c)),
                         c_source := advance two_source (num_items two_source + 1),
                         c_keys := [], c_label_enum := [], c_index_table := []\<rparr>)) \<and>
               snd (Cache_refresh c key (Some p) u) \<noteq> c"
    and rh: "\<forall>r p u. 0 < num_items two_source \<and> 0 \<le> p \<and> p \<le> 1 \<and> u < p \<longrightarrow>
               (\<exists>key. choice (map fst (c_items c)) r = Inr key \<and>
                  map_of (c_items c) key \<noteq> None \<and>
                  Cache_refresh_rand c (Some p) r u = Cache_refresh c key (Some p) u \<and>
                  Cache_refresh_rand c (Some p) r u =
                    Cache_load (Cache_clear_tables
                      (c\<lparr>c_items := AList.delete key (c_items c)\<rparr>)) 1 \<and>
                  snd (Cache_refresh_rand c (Some p) r u) \<noteq> c)"
    by (elim exE conjE)
  from i have c: "c = two_cache" by (simp add: two_cache_def)
  have 4: "Cache_init two_source 5 (1 / 4) = (Inr (), two_cache)"
    using i c by simp
  have 5: "length (c_items two_cache) = num_items two_source"
    using l c by simp
  have 6: "Cache_refresh two_cache ''a'' (Some 0) 0 = (Inr (), two_cache)"
    using z c by simp
  have "(0::real) \<le> 1 / 2 \<and> (1::real) / 2 \<le> 1 \<and> (1::real) / 2 \<le> 3 / 4" by simp
  with m have 7: "Cache_refresh two_cache ''a'' (Some (1 / 2)) (3 / 4) = (Inr (), two_cache)"
    unfolding c by blast
  have 8: "Cache_refresh_rand two_cache (Some 0) 3 0 = (Inr (), two_cache)"
    using rz n c by simp
  have "map_of (c_items two_cache) ''a'' \<noteq> None \<and> (0::real) \<le> 1 \<and> (1::real) \<le> 1 \<and>
      (0::real) < 1"
    using r by simp
  with h have k: "Suc (length (AList.delete ''a'' (c_items two_cache))) = num_items two_source"
    "Cache_refresh two_cache ''a'' (Some 1) 0 =
       (case s_items two_source (s_pos two_source + num_items two_source) of
          None \<Rightarrow>
            (Inl SourceExhausted,
             two_cache\<lparr>c_items := AList.delete ''a'' (c_items two_cache),
               c_keys := [], c_label_enum := [], c_index_table := []\<rparr>)
        | Some kv \<Rightarrow>
            (Inr (),
             two_cache\<lparr>c_items := AList.update (fst kv) (snd kv)
                            (AList.delete ''a'' (c_items two_cache)),
               c_source := advance two_source (num_items two_source + 1),
               c_keys := [], c_label_enum := [], c_index_table := []\<rparr>))"
    "snd (Cache_refresh two_cache ''a'' (Some 1) 0) \<noteq> two_cache"
    unfolding c by blast+
  have 9: "fst (Cache_refresh two_cache ''a'' (Some 1) 0) = Inl SourceExhausted"
    unfolding k(2) e by simp
  have "0 < num_items two_source \<and> (0::real) \<le> 1 \<and> (1::real) \<le> 1 \<and> (0::real) < 1"
    using n by simp
  with rh have 10: "snd (Cache_refresh_rand two_cache (Some 1) 3 0) \<noteq> two_cache"
    unfolding c by blast
  show ?thesis
    using 1 2 3 4 5 6 7 8 r k(1) e 9 k(3) 10 by (intro conjI)
qed

text \<open>
  C2 (as the specification states it) fails: on the Cache of two items built with a
  requested size of five, a refresh with the explicit probability 1 evicts its key and
  then finds the source exhausted. The resident set has \<open>num_items\<close> items only when the
  source serves that many pulls with distinct keys: a source that announces two items
  and yields the key \<open>a\<close> twice leaves one resident item, and a source that announces
  three items and has two makes the constructor fail.
\<close>

theorem Cache_fits_source_counterexample:
  "num_items two_source < 5 \<and>
   fst (Cache_init two_source 5 (1 / 4)) = Inr () \<and>
   two_cache = snd (Cache_init two_source 5 (1 / 4)) \<and>
   map fst (c_items two_cache) = [''a'', ''b''] \<and>
   fst (Cache_refresh two_cache ''a'' (Some 1) 0) = Inl SourceExhausted \<and>
   map fst (c_items (snd (Cache_refresh two_cache ''a'' (Some 1) 0))) = [''b''] \<and>
   map fst (c_items (snd (Cache_refresh_rand two_cache (Some 1) 3 0))) = [''a''] \<and>
   num_items repeat_source = 2 \<and>
   fst (Cache_init repeat_source 5 (1 / 4)) = Inr () \<and>
   map fst (c_items (snd (Cache_init repeat_source 5 (1 / 4)))) = [''a''] \<and>
   num_items (two_source\<lparr>num_items := 3\<rparr>) = 3 \<and>
   fst (Cache_init (two_source\<lparr>num_items := 3\<rparr>) 5 (1 / 4)) = Inl SourceExhausted"
proof -
  have 1: "num_items two_source < 5" by (simp add: two_source_def list_source_def)
  have 2: "supplies two_source (num_items two_source)" by code_simp
  have n: "s_items (advance two_source 2) (s_pos (advance two_source 2)) = None"
    by (simp add: advance_def two_source_def list_source_def)
  have a: "Cache_refresh two_cache ''a'' (Some 1) 0 =
     (Inl SourceExhausted, Cache_clear_tables (two_cache\<lparr>c_items := [(''b'', sample ''y'')]\<rparr>))"
    by (simp add: Cache_refresh_def binomial1_def Cache_remove_def two_cache_eq
        source_next_None [OF n] Cache_clear_tables_def AList.delete_eq)
  have m: "(3::nat) mod Suc (Suc 0) = Suc 0" by presburger
  have b: "Cache_refresh_rand two_cache (Some 1) 3 0 =
     (Inl SourceExhausted, Cache_clear_tables (two_cache\<lparr>c_items := [(''a'', sample ''x'')]\<rparr>))"
    by (simp add: Cache_refresh_rand_def choice_def Cache_refresh_def binomial1_def
        Cache_remove_def two_cache_eq source_next_None [OF n] Cache_clear_tables_def
        AList.delete_eq m)
  have i: "fst (Cache_init two_source 5 (1 / 4)) = Inr ()"
    by (simp add: Cache_init_fits [OF 1 2])
  have k: "map fst (c_items two_cache) = [''a'', ''b'']"
    by (simp add: two_cache_eq)
  have a1: "fst (Cache_refresh two_cache ''a'' (Some 1) 0) = Inl SourceExhausted"
    by (simp add: a)
  have a2: "map fst (c_items (snd (Cache_refresh two_cache ''a'' (Some 1) 0))) = [''b'']"
    by (simp add: a Cache_clear_tables_def)
  have b2: "map fst (c_items (snd (Cache_refresh_rand two_cache (Some 1) 3 0))) = [''a'']"
    by (simp add: b Cache_clear_tables_def)
  have r1: "num_items repeat_source < 5" by (simp add: repeat_source_def list_source_def)
  have r2: "supplies repeat_source (num_items repeat_source)" by code_simp
  have r3: "num_items repeat_source = 2" by (simp add: repeat_source_def list_source_def)
  have r4: "map fst (store_all (pulled repeat_source 2) []) = [''a'']" by code_simp
  have r5: "fst (Cache_init repeat_source 5 (1 / 4)) = Inr ()"
    by (simp add: Cache_init_fits [OF r1 r2])
  have r6: "map fst (c_items (snd (Cache_init repeat_source 5 (1 / 4)))) = [''a'']"
    by (simp add: Cache_init_fits [OF r1 r2] r3 r4)
  let ?s = "two_source\<lparr>num_items := 3\<rparr>"
  let ?c = "\<lparr>c_items = [], c_source = ?s, c_refresh_prob = 1 / 4,
              c_keys = [], c_label_enum = [], c_index_table = []\<rparr> :: unit cache"
  have s1: "num_items ?s = 3" by simp
  have "\<not> supplies (c_source ?c) 3" by code_simp
  then have "fst (Cache_load ?c 3) = Inl SourceExhausted" by (rule Cache_load_exhausted)
  then have s2: "fst (Cache_init ?s 5 (1 / 4)) = Inl SourceExhausted"
    by (auto simp: Cache_init_def split: prod.splits sum.splits)
  show ?thesis
    using 1 i k a1 a2 b2 two_cache_def r3 r5 r6 s1 s2 by (intro conjI)
qed

text \<open>
  C4 (as the code has it). The key is looked at only after the draw has succeeded. For a
  key that is not resident, \<open>refresh\<close> fails with NotFound when the draw succeeds (always
  for \<open>p = 1\<close>) and returns without any effect when it fails (always for \<open>p = 0\<close>). For a
  resident key, \<open>refresh(key, 1.0)\<close> evicts the key, clears the tables and pulls exactly
  one pair from the source, which it stores, or fails after the eviction when the source
  is exhausted; \<open>refresh(key, 0.0)\<close> changes nothing.
\<close>

theorem Cache_refresh_outcomes:
  "(map_of (c_items c) key = None \<longrightarrow> 0 \<le> p \<longrightarrow> p \<le> 1 \<longrightarrow> u < p \<longrightarrow>
      Cache_refresh c key (Some p) u = (Inl NotFound, c)) \<and>
   (map_of (c_items c) key = None \<longrightarrow> 0 \<le> p \<longrightarrow> p \<le> 1 \<longrightarrow> p \<le> u \<longrightarrow>
      Cache_refresh c key (Some p) u = (Inr (), c)) \<and>
   (map_of (c_items c) key \<noteq> None \<longrightarrow> u < 1 \<longrightarrow>
      s_items (c_source c) (s_pos (c_source c)) = Some (k, v) \<longrightarrow>
      Cache_refresh c key (Some 1) u =
        (Inr (), c\<lparr>c_items := AList.update k v (AList.delete key (c_items c)),
                   c_source := advance (c_source c) 1,
                   c_keys := [], c_label_enum := [], c_index_table := []\<rparr>)) \<and>
   (map_of (c_items c) key \<noteq> None \<longrightarrow> u < 1 \<longrightarrow>
      s_items (c_source c) (s_pos (c_source c)) = None \<longrightarrow>
      Cache_refresh c key (Some 1) u =
        (Inl SourceExhausted, c\<lparr>c_items := AList.delete key (c_items c),
                   c_keys := [], c_label_enum := [], c_index_table := []\<rparr>)) \<and>
   (0 \<le> u \<longrightarrow> Cache_refresh c key (Some 0) u = (Inr (), c))"
proof (intro conjI impI)
  assume "map_of (c_items c) key = None" "0 \<le> p" "p \<le> 1" "u < p"
  then show "Cache_refresh c key (Some p) u = (Inl NotFound, c)"
    by (simp add: Cache_refresh_hit Cache_remove_absent)
next
  assume "0 \<le> p" "p \<le> 1" "p \<le> u"
  then show "Cache_refresh c key (Some p) u = (Inr (), c)"
    by (rule Cache_refresh_miss)
next
  assume r: "map_of (c_items c) key \<noteq> None" and u: "u < 1"
    and s: "s_items (c_source c) (s_pos (c_source c)) = Some (k, v)"
  have "Cache_refresh c key (Some 1) u =
      Cache_load (Cache_clear_tables (c\<lparr>c_items := AList.delete key (c_items c)\<rparr>)) 1"
    using u by (simp add: Cache_refresh_hit Cache_remove_resident [OF r])
  also have "\<dots> = (Inr (), c\<lparr>c_items := AList.update k v (AList.delete key (c_items c)),
                   c_source := advance (c_source c) 1,
                   c_keys := [], c_label_enum := [], c_index_table := []\<rparr>)"
    using s by (simp add: Cache_clear_tables_def source_next_Some)
  finally show "Cache_refresh c key (Some 1) u =
        (Inr (), c\<lparr>c_items := AList.update k v (AList.delete key (c_items c)),
                   c_source := advance (c_source c) 1,
                   c_keys := [], c_label_enum := [], c_index_table := []\<rparr>)" .
next
  assume r: "map_of (c_items c) key \<noteq> None" and u: "u < 1"
    and s: "s_items (c_source c) (s_pos (c_source c)) = None"
  have "Cache_refresh c key (Some 1) u =
      Cache_load (Cache_clear_tables (c\<lparr>c_items := AList.delete key (c_items c)\<rparr>)) 1"
    using u by (simp add: Cache_refresh_hit Cache_remove_resident [OF r])
  also have "\<dots> = (Inl SourceExhausted, c\<lparr>c_items := AList.delete key (c_items c),
                   c_keys := [], c_label_enum := [], c_index_table := []\<rparr>)"
    using s by (simp add: Cache_clear_tables_def source_next_None)
  finally show "Cache_refresh c key (Some 1) u =
        (Inl SourceExhausted, c\<lparr>c_items := AList.delete key (c_items c),
                   c_keys := [], c_label_enum := [], c_index_table := []\<rparr>)" .
next
  assume "0 \<le> u"
  then show "Cache_refresh c key (Some 0) u = (Inr (), c)"
    by (intro Cache_refresh_miss) simp_all
qed

text \<open>
  The four cases on the Cache of two items over an exhausted source: a key that is not
  resident with \<open>p = 1\<close> and with \<open>p = 0\<close>, and the resident key \<open>a\<close> with \<open>p = 1\<close>
  and with \<open>p = 0\<close>.
\<close>

theorem Cache_refresh_outcomes_witness:
  "map_of (c_items two_cache) ''q'' = None \<and> map_of (c_items two_cache) ''a'' \<noteq> None \<and>
   s_items (c_source two_cache) (s_pos (c_source two_cache)) = None \<and>
   Cache_refresh two_cache ''q'' (Some 1) (1 / 2) = (Inl NotFound, two_cache) \<and>
   Cache_refresh two_cache ''q'' (Some 0) (1 / 2) = (Inr (), two_cache) \<and>
   Cache_refresh two_cache ''a'' (Some 1) (1 / 2) =
     (Inl SourceExhausted, two_cache\<lparr>c_items := AList.delete ''a'' (c_items two_cache),
        c_keys := [], c_label_enum := [], c_index_table := []\<rparr>) \<and>
   Cache_refresh two_cache ''a'' (Some 0) (1 / 2) = (Inr (), two_cache)"
proof -
  have 1: "map_of (c_items two_cache) ''q'' = None" by (simp add: two_cache_eq)
  have 2: "map_of (c_items two_cache) ''a'' \<noteq> None" by (simp add: two_cache_eq)
  have 3: "s_items (c_source two_cache) (s_pos (c_source two_cache)) = None"
    by (simp add: two_cache_eq advance_def two_source_def list_source_def)
  show ?thesis
    using 1 2 3
      Cache_refresh_outcomes [of two_cache "''q''" 1 "1 / 2"]
      Cache_refresh_outcomes [of two_cache "''q''" 0 "1 / 2"]
      Cache_refresh_outcomes [of two_cache "''a''" 1 "1 / 2"]
    by simp
qed

text \<open>
  C4 (as the specification states it) fails: with \<open>p = 0\<close> a refresh of a key that is not
  resident returns normally and leaves the Cache as it was.
\<close>

theorem Cache_refresh_counterexample:
  "map_of (c_items two_cache) ''q'' = None \<and>
   Cache_refresh two_cache ''q'' (Some 0) 0 = (Inr (), two_cache)"
  by (simp add: two_cache_eq Cache_refresh_def binomial1_def)

lemma Cache_load_tables:
  "c_label_enum (snd (Cache_load c n)) = c_label_enum c \<and>
   c_index_table (snd (Cache_load c n)) = c_index_table c"
  by (induction n arbitrary: c) (auto split: prod.splits sum.splits)

lemma Cache_remove_tables:
  "Cache_remove c key = (Inr (), c') \<Longrightarrow> c_label_enum c' = [] \<and> c_index_table c' = []"
  by (auto simp: Cache_remove_def Cache_clear_tables_def split: if_splits)


lemma three_cache_eq:
  "Cache_init three_source 2 (1 / 4) =
     (Inr (), \<lparr>c_items = [(''a'', sample ''x''), (''b'', sample ''y'')],
        c_source = advance three_source 2, c_refresh_prob = 1 / 4,
        c_keys = [], c_label_enum = [], c_index_table = []\<rparr>)"
proof -
  have 1: "supplies three_source 2" by code_simp
  have 2: "store_all (pulled three_source 2) [] = [(''a'', sample ''x''), (''b'', sample ''y'')]"
    by code_simp
  have 3: "\<not> num_items three_source < 2" by (simp add: three_source_def list_source_def)
  show ?thesis
    using 1 3 by (simp add: Cache_init_def Cache_load_supplied 2 Cache_clear_tables_def)
qed

lemma stale_cache_eq:
  "stale_cache =
     \<lparr>c_items = [(''a'', sample ''x''), (''b'', sample ''y''), (''c'', sample ''z'')],
      c_source = advance three_source 3, c_refresh_prob = 1 / 4,
      c_keys = [], c_label_enum = [(AStr ''x'', 0), (AStr ''y'', 1)],
      c_index_table = [SampleRow 1 0, SampleRow 1 1]\<rparr>"
proof -
  have 1: "s_items (advance three_source 2) (s_pos (advance three_source 2))
      = Some (''c'', sample ''z'')"
    by (simp add: advance_def three_source_def list_source_def)
  show ?thesis
    unfolding stale_cache_def three_cache_eq
    by (simp add: Cache_label_enum_def Cache_create_tables_def Cache_clear_tables_def
        cache_item_def index_item_def sample_label_def enumerate_label_def env0_def
        sample_def source_next_Some [OF 1] advance_advance)
qed

text \<open>
  C5 at a concrete Cache: two items with the labels x and y are resident and the tables
  have been read; \<open>load(1)\<close> then brings in an item with the label z. The Cache holds
  three items, yet both readers still return the tables of the first two: \<open>load\<close> has not
  invalidated them. Once they are cleared, the rebuild covers the three items.
\<close>

theorem Cache_load_keeps_stale_tables:
  "map fst (c_items stale_cache) = [''a'', ''b'', ''c''] \<and>
   fst (Cache_label_enum env0 stale_cache) = Inr [(AStr ''x'', 0), (AStr ''y'', 1)] \<and>
   fst (Cache_index_table env0 stale_cache) = Inr [SampleRow 1 0, SampleRow 1 1] \<and>
   fst (Cache_label_enum env0 (Cache_clear_tables stale_cache))
     = Inr [(AStr ''x'', 0), (AStr ''y'', 1), (AStr ''z'', 2)] \<and>
   fst (Cache_index_table env0 (Cache_clear_tables stale_cache))
     = Inr [SampleRow 1 0, SampleRow 1 1, SampleRow 1 2]"
  by (simp add: stale_cache_eq Cache_label_enum_def Cache_index_table_def
      Cache_create_tables_def Cache_clear_tables_def cache_item_def index_item_def
      sample_label_def enumerate_label_def env0_def sample_def)

section \<open>Properties of the batches\<close>

lemma LabelBatch_load_supplied:
  "supplies (b_source b) n \<Longrightarrow>
   LabelBatch_load b n =
     (Inr (), b\<lparr>b_source := advance (b_source b) n,
                b_items := store_all (pulled (b_source b) n) (b_items b)\<rparr>)"
proof (induction n arbitrary: b)
  case 0
  then show ?case by (simp add: store_all_def)
next
  case (Suc n)
  from Suc.prems obtain kv where kv: "s_items (b_source b) (s_pos (b_source b)) = Some kv"
    and rest: "supplies (advance (b_source b) 1) n"
    by (auto simp: supplies_Suc)
  obtain k v where [simp]: "kv = (k, v)" by (cases kv)
  let ?b = "b\<lparr>b_source := advance (b_source b) 1, b_items := AList.update k v (b_items b)\<rparr>"
  have "LabelBatch_load b (Suc n) = LabelBatch_load ?b n"
    using kv by (simp add: source_next_Some)
  also have "\<dots> = (Inr (), ?b\<lparr>b_source := advance (b_source ?b) n,
                b_items := store_all (pulled (b_source ?b) n) (b_items ?b)\<rparr>)"
    using rest by (intro Suc.IH) simp
  finally show ?case
    using kv by (simp add: pulled_Suc advance_advance store_all_def)
qed

lemma LabelBatch_load_exhausted:
  "\<not> supplies (b_source b) n \<Longrightarrow> fst (LabelBatch_load b n) = Inl SourceExhausted"
proof (induction n arbitrary: b)
  case 0
  then show ?case by simp
next
  case (Suc n)
  show ?case
  proof (cases "s_items (b_source b) (s_pos (b_source b))")
    case None
    then show ?thesis by (simp add: source_next_None)
  next
    case (Some kv)
    obtain k v where [simp]: "kv = (k, v)" by (cases kv)
    let ?b = "b\<lparr>b_source := advance (b_source b) 1, b_items := AList.update k v (b_items b)\<rparr>"
    have "\<not> supplies (b_source ?b) n" using Suc.prems Some by (simp add: supplies_Suc)
    then have "fst (LabelBatch_load ?b n) = Inl SourceExhausted" by (rule Suc.IH)
    then show ?thesis using Some by (simp add: source_next_Some)
  qed
qed

text \<open>
  C9 (as the code has it). \<open>refresh\<close> empties the mapping and pulls exactly
  \<open>batch_size\<close> pairs from the source, storing each under its key; it fails exactly when
  the source cannot serve that many pulls. The batch then holds at most \<open>batch_size\<close>
  items, and exactly \<open>batch_size\<close> when the pulled keys are distinct: a key pulled twice
  overwrites its earlier item.
\<close>

theorem LabelBatch_refresh_pulls:
  "(supplies (b_source b) (batch_size b) \<longrightarrow>
      LabelBatch_refresh b =
        (Inr (), b\<lparr>b_source := advance (b_source b) (batch_size b),
                   b_items := store_all (pulled (b_source b) (batch_size b)) []\<rparr>) \<and>
      length (pulled (b_source b) (batch_size b)) = batch_size b \<and>
      length (b_items (snd (LabelBatch_refresh b))) \<le> batch_size b \<and>
      (distinct (map fst (pulled (b_source b) (batch_size b))) \<longrightarrow>
         length (b_items (snd (LabelBatch_refresh b))) = batch_size b)) \<and>
   (\<not> supplies (b_source b) (batch_size b) \<longrightarrow>
      fst (LabelBatch_refresh b) = Inl SourceExhausted)"
proof (intro conjI impI)
  assume s: "supplies (b_source b) (batch_size b)"
  let ?kvs = "pulled (b_source b) (batch_size b)"
  have "supplies (b_source (b\<lparr>b_items := []\<rparr>)) (batch_size b)" using s by simp
  from LabelBatch_load_supplied [OF this]
  show r: "LabelBatch_refresh b =
        (Inr (), b\<lparr>b_source := advance (b_source b) (batch_size b),
                   b_items := store_all ?kvs []\<rparr>)"
    by (simp add: LabelBatch_refresh_def)
  show len: "length ?kvs = batch_size b" using s by (rule length_pulled)
  show "length (b_items (snd (LabelBatch_refresh b))) \<le> batch_size b"
    using length_store_all_le [of ?kvs "[]"] by (simp add: r len)
  show "length (b_items (snd (LabelBatch_refresh b))) = batch_size b"
    if "distinct (map fst ?kvs)"
    using length_store_all_distinct [OF that, of "[]"] by (simp add: r len)
next
  assume "\<not> supplies (b_source b) (batch_size b)"
  then have "\<not> supplies (b_source (b\<lparr>b_items := []\<rparr>)) (batch_size b)" by simp
  from LabelBatch_load_exhausted [OF this]
  show "fst (LabelBatch_refresh b) = Inl SourceExhausted"
    by (simp add: LabelBatch_refresh_def)
qed

text \<open>
  A source of two items with distinct keys serves a batch of size two in full; a batch of
  size three over the same source fails.
\<close>

theorem LabelBatch_refresh_pulls_witness:
  "supplies (b_source two_batch) (batch_size two_batch) \<and>
   distinct (map fst (pulled (b_source two_batch) (batch_size two_batch))) \<and>
   fst (LabelBatch_refresh two_batch) = Inr () \<and>
   length (b_items (snd (LabelBatch_refresh two_batch))) = batch_size two_batch \<and>
   \<not> supplies (b_source (two_batch\<lparr>batch_size := 3\<rparr>)) (batch_size (two_batch\<lparr>batch_size := 3\<rparr>)) \<and>
   fst (LabelBatch_refresh (two_batch\<lparr>batch_size := 3\<rparr>)) = Inl SourceExhausted"
proof -
  have 1: "supplies (b_source two_batch) (batch_size two_batch)" by code_simp
  have 2: "distinct (map fst (pulled (b_source two_batch) (batch_size two_batch)))"
    by code_simp
  have 3: "\<not> supplies (b_source (two_batch\<lparr>batch_size := 3\<rparr>))
     (batch_size (two_batch\<lparr>batch_size := 3\<rparr>))" by code_simp
  note t = LabelBatch_refresh_pulls [of two_batch]
  have "LabelBatch_refresh two_batch =
        (Inr (), two_batch\<lparr>b_source := advance (b_source two_batch) (batch_size two_batch),
           b_items := store_all (pulled (b_source two_batch) (batch_size two_batch)) []\<rparr>)"
    using t 1 by blast
  then have 4: "fst (LabelBatch_refresh two_batch) = Inr ()" by simp
  have 5: "length (b_items (snd (LabelBatch_refresh two_batch))) = batch_size two_batch"
    using t 1 2 by blast
  have 6: "fst (LabelBatch_refresh (two_batch\<lparr>batch_size := 3\<rparr>)) = Inl SourceExhausted"
    using LabelBatch_refresh_pulls [of "two_batch\<lparr>batch_size := 3\<rparr>"] 3 by blast
  show ?thesis
    using 1 2 3 4 5 6 by (intro conjI)
qed

text \<open>
  C9 (as the specification states it) fails: over a source that yields the key \<open>a\<close>
  twice, a refresh of a batch of size two succeeds after two pulls and leaves one
  resident item.
\<close>

theorem LabelBatch_refresh_counterexample:
  "batch_size repeat_batch = 2 \<and>
   fst (LabelBatch_refresh repeat_batch) = Inr () \<and>
   s_pos (b_source (snd (LabelBatch_refresh repeat_batch))) = 2 \<and>
   b_items (snd (LabelBatch_refresh repeat_batch)) = [(''a'', sample ''y'')]"
  by (simp add: repeat_batch_def repeat_source_def LabelBatch_init_def list_source_def
      LabelBatch_refresh_def source_next_def numeral_2_eq_2)

lemma LabelBatch_load_fields:
  "batch_size (snd (LabelBatch_load b n)) = batch_size b \<and>
   label_key (snd (LabelBatch_load b n)) = label_key b"
  by (induction n arbitrary: b) (auto split: prod.splits sum.splits)

lemma LabelBatch_refresh_fields:
  "LabelBatch_refresh b = (r, b') \<Longrightarrow> batch_size b' = batch_size b \<and> label_key b' = label_key b"
  using LabelBatch_load_fields [of "b\<lparr>b_items := []\<rparr>" "batch_size b"]
  by (simp add: LabelBatch_refresh_def)

lemma set_same_candidates:
  "z \<in> set (same_candidates ls y) \<Longrightarrow> z < length ls \<and> ls ! z = ls ! y"
  unfolding same_candidates_def by (auto dest: notin_set_remove1 [THEN contrapos_pp])

lemma set_diff_candidates:
  "z \<in> set (diff_candidates ls y) \<Longrightarrow> z < length ls \<and> ls ! z \<noteq> ls ! y"
  unfolding diff_candidates_def by auto

lemma choice_in_set: "choice xs r = Inr z \<Longrightarrow> z \<in> set xs"
  by (auto simp: choice_def split: if_splits)

text \<open>What one successful iteration of a pairing loop has done.\<close>

lemma pair_step_None:
  assumes "pair_step same ls rr b = (None, b')"
  shows "\<exists>y z. idx_A b' = idx_A b @ [y] \<and> idx_B b' = idx_B b @ [z] \<and>
           y < length ls \<and> z < length ls \<and> (ls ! y = ls ! z \<longleftrightarrow> same) \<and>
           \<not> list_ex is_array ls \<and>
           b_items b' = b_items b \<and> label_key b' = label_key b \<and> batch_size b' = batch_size b"
proof -
  from assms obtain y where y: "randint (length ls) (fst rr) = Inr y"
    by (auto simp: pair_step_def split: sum.splits)
  then have yl: "y < length ls" by (auto simp: randint_def split: if_splits)
  from assms y have na: "\<not> list_ex is_array ls"
    by (auto simp: pair_step_def split: if_splits)
  let ?possible = "if same then same_candidates ls y else diff_candidates ls y"
  from assms y na obtain z where z: "choice ?possible (snd rr) = Inr z"
    and b': "b' = b\<lparr>idx_A := idx_A b @ [y], idx_B := idx_B b @ [z]\<rparr>"
    by (auto simp: pair_step_def Let_def split: sum.splits if_splits)
  from choice_in_set [OF z] have "z < length ls \<and> (ls ! y = ls ! z \<longleftrightarrow> same)"
    by (cases same) (auto dest: set_same_candidates set_diff_candidates)
  with yl na b' show ?thesis by simp
qed

text \<open>What a pairing loop that ran to its end has done.\<close>

lemma pair_loop_None:
  "for_each (pair_step same ls) ds b = (None, b') \<Longrightarrow>
   \<exists>ps. length ps = length ds \<and>
        idx_A b' = idx_A b @ map fst ps \<and> idx_B b' = idx_B b @ map snd ps \<and>
        list_all (\<lambda>p. fst p < length ls \<and> snd p < length ls \<and>
                      (ls ! fst p = ls ! snd p \<longleftrightarrow> same)) ps \<and>
        (ds = [] \<or> list_all (\<lambda>l. \<not> is_array l) ls) \<and>
        b_items b' = b_items b \<and> label_key b' = label_key b \<and> batch_size b' = batch_size b"
proof (induction ds arbitrary: b)
  case Nil
  then show ?case by simp
next
  case (Cons d ds)
  from Cons.prems obtain b1 where s: "pair_step same ls d b = (None, b1)"
    and r: "for_each (pair_step same ls) ds b1 = (None, b')"
    by (auto split: prod.splits option.splits)
  from pair_step_None [OF s] obtain y z where
    1: "idx_A b1 = idx_A b @ [y]" "idx_B b1 = idx_B b @ [z]"
       "y < length ls" "z < length ls" "ls ! y = ls ! z \<longleftrightarrow> same"
       "\<not> list_ex is_array ls"
       "b_items b1 = b_items b" "label_key b1 = label_key b" "batch_size b1 = batch_size b"
    by blast
  from Cons.IH [OF r] obtain ps where
    2: "length ps = length ds"
       "idx_A b' = idx_A b1 @ map fst ps" "idx_B b' = idx_B b1 @ map snd ps"
       "list_all (\<lambda>p. fst p < length ls \<and> snd p < length ls \<and>
                      (ls ! fst p = ls ! snd p \<longleftrightarrow> same)) ps"
       "b_items b' = b_items b1" "label_key b' = label_key b1" "batch_size b' = batch_size b1"
    by blast
  have na: "list_all (\<lambda>l. \<not> is_array l) ls"
    using 1(6) by (simp add: list_all_iff list_ex_iff)
  show ?case
    using 1 2 na by (intro exI [of _ "(y, z) # ps"]) simp
qed

lemma labels_cong:
  "b_items b' = b_items b \<Longrightarrow> label_key b' = label_key b \<Longrightarrow>
   LabelBatch_labels b' = LabelBatch_labels b"
  by (simp add: LabelBatch_labels_def)

lemma length_draws [simp]: "length (draws rnd start n) = n"
  by (simp add: draws_def)

text \<open>What the two loops of \<open>_pair\<close> have built when neither failed.\<close>

lemma pair_loops_None:
  assumes "pair_loops b rnd = (None, b2)"
  shows "\<exists>ls ps qs. LabelBatch_labels b = Inr ls \<and>
     length ps = batch_size b div 2 \<and> length qs = batch_size b div 2 \<and>
     idx_A b2 = map fst (ps @ qs) \<and> idx_B b2 = map snd (ps @ qs) \<and>
     list_all (\<lambda>p. fst p < length ls \<and> snd p < length ls \<and> ls ! fst p = ls ! snd p) ps \<and>
     list_all (\<lambda>p. fst p < length ls \<and> snd p < length ls \<and> ls ! fst p \<noteq> ls ! snd p) qs \<and>
     (batch_size b div 2 = 0 \<or> list_all (\<lambda>l. \<not> is_array l) ls) \<and>
     b_items b2 = b_items b \<and> label_key b2 = label_key b \<and> batch_size b2 = batch_size b"
proof -
  let ?b0 = "b\<lparr>idx_A := [], idx_B := []\<rparr>"
  let ?h = "batch_size b div 2"
  have l0: "LabelBatch_labels ?b0 = LabelBatch_labels b" by (rule labels_cong) simp_all
  from assms obtain ls where ls: "LabelBatch_labels b = Inr ls"
    by (auto simp: pair_loops_def l0 Let_def split: sum.splits)
  from assms ls obtain b1 where
    p: "for_each (pair_step True ls) (draws rnd 0 ?h) ?b0 = (None, b1)" and
    q: "for_each (pair_step False ls) (draws rnd ?h ?h) b1 = (None, b2)"
    by (auto simp: pair_loops_def l0 Let_def split: prod.splits option.splits)
  from pair_loop_None [OF p] obtain ps where
    1: "length ps = ?h" "idx_A b1 = map fst ps" "idx_B b1 = map snd ps"
       "list_all (\<lambda>p. fst p < length ls \<and> snd p < length ls \<and>
                      (ls ! fst p = ls ! snd p \<longleftrightarrow> True)) ps"
       "draws rnd 0 ?h = [] \<or> list_all (\<lambda>l. \<not> is_array l) ls"
       "b_items b1 = b_items b" "label_key b1 = label_key b" "batch_size b1 = batch_size b"
    by auto
  from pair_loop_None [OF q] obtain qs where
    2: "length qs = ?h" "idx_A b2 = idx_A b1 @ map fst qs" "idx_B b2 = idx_B b1 @ map snd qs"
       "list_all (\<lambda>p. fst p < length ls \<and> snd p < length ls \<and>
                      (ls ! fst p = ls ! snd p \<longleftrightarrow> False)) qs"
       "b_items b2 = b_items b1" "label_key b2 = label_key b1" "batch_size b2 = batch_size b1"
    by auto
  have 3: "?h = 0 \<or> list_all (\<lambda>l. \<not> is_array l) ls"
  proof (cases "?h = 0")
    case True
    then show ?thesis by simp
  next
    case False
    then have "draws rnd 0 ?h \<noteq> []" by (simp add: draws_def)
    with 1(5) show ?thesis by simp
  qed
  show ?thesis
    using ls 1 2 3 by (intro exI [of _ ls] exI [of _ ps] exI [of _ qs]) simp
qed

text \<open>
  C10. When the pairing pass completes, the two loops have appended to both lists in
  lockstep: before the truncation each list has \<open>2 * (batch_size div 2)\<close> entries, the
  truncation removes nothing, and for an odd batch size there are \<open>batch_size - 1\<close>
  pairs.
\<close>

theorem PairedBatch_pair_lengths:
  assumes "PairedBatch_pair b rnd = (Inr (), b')"
  shows "\<exists>b2. pair_loops b rnd = (None, b2) \<and>
     length (idx_A b2) = 2 * (batch_size b div 2) \<and>
     length (idx_B b2) = 2 * (batch_size b div 2) \<and>
     idx_A b' = idx_A b2 \<and> idx_B b' = idx_B b2 \<and>
     length (idx_A b') = length (idx_B b') \<and>
     length (idx_A b') = 2 * (batch_size b div 2) \<and>
     (odd (batch_size b) \<longrightarrow> length (idx_A b') = batch_size b - 1)"
proof -
  from assms obtain b2 where l: "pair_loops b rnd = (None, b2)"
    and b': "b' = b2\<lparr>idx_A := take (min (length (idx_A b2)) (length (idx_B b2))) (idx_A b2),
                     idx_B := take (min (length (idx_A b2)) (length (idx_B b2))) (idx_B b2)\<rparr>"
    by (auto simp: PairedBatch_pair_def Let_def split: prod.splits option.splits)
  from pair_loops_None [OF l] obtain ps qs where
    n: "length ps = batch_size b div 2" "length qs = batch_size b div 2"
    and ab: "idx_A b2 = map fst (ps @ qs)" "idx_B b2 = map snd (ps @ qs)"
    by blast
  have la: "length (idx_A b2) = 2 * (batch_size b div 2)" using n ab by simp
  have lb: "length (idx_B b2) = 2 * (batch_size b div 2)" using n ab by simp
  have a: "idx_A b' = idx_A b2" and b: "idx_B b' = idx_B b2"
    using la lb by (simp_all add: b')
  have odd: "length (idx_A b') = batch_size b - 1" if "odd (batch_size b)"
    using that la a by (auto elim: oddE)
  show ?thesis
    using l la lb a b odd by (intro exI [of _ b2]) simp
qed


text \<open>The odd batch of three items: its pairing pass completes with two pairs.\<close>

theorem PairedBatch_pair_lengths_witness:
  "fst (PairedBatch_pair (snd (LabelBatch_refresh odd_batch)) counting) = Inr () \<and>
   odd (batch_size (snd (LabelBatch_refresh odd_batch))) \<and>
   length (idx_A (snd (PairedBatch_pair (snd (LabelBatch_refresh odd_batch)) counting)))
     = length (idx_B (snd (PairedBatch_pair (snd (LabelBatch_refresh odd_batch)) counting))) \<and>
   length (idx_A (snd (PairedBatch_pair (snd (LabelBatch_refresh odd_batch)) counting)))
     = batch_size (snd (LabelBatch_refresh odd_batch)) - 1"
proof -
  let ?b = "snd (LabelBatch_refresh odd_batch)"
  have 1: "fst (PairedBatch_pair ?b counting) = Inr ()" by code_simp
  then have 2: "PairedBatch_pair ?b counting = (Inr (), snd (PairedBatch_pair ?b counting))"
    by (simp add: prod_eq_iff)
  have "batch_size ?b = 3"
    using LabelBatch_refresh_fields [of odd_batch "fst (LabelBatch_refresh odd_batch)" ?b]
    by (simp add: odd_batch_def LabelBatch_init_def)
  then have 3: "odd (batch_size ?b)" by simp
  show ?thesis
    using PairedBatch_pair_lengths [OF 2] 1 3 by blast
qed





section \<open>Properties of the rebuild of the tables\<close>

lemma filter_single:
  assumes "filter_mset P (mset d) = {#e#}"
  shows "filter P d = [e]"
proof -
  have "mset (filter P d) = {#e#}" using assms by simp
  then show ?thesis
    by (cases "filter P d") (auto simp: add_mset_eq_single split: if_splits)
qed

lemma visititems_three:
  assumes "mset d = {#(''a'', A), (''b'', B), (''c'', C)#}"
  shows "visititems d = [(''a'', A), (''b'', B), (''c'', C)]"
  unfolding visititems_def
proof (rule properties_for_sort_key)
  show "mset [(''a'', A), (''b'', B), (''c'', C)] = mset d" using assms by simp
next
  show "sorted (map fst [(''a'', A), (''b'', B), (''c'', C)])" by simp
next
  fix k assume "k \<in> set [(''a'', A), (''b'', B), (''c'', C)]"
  then consider "k = (''a'', A)" | "k = (''b'', B)" | "k = (''c'', C)" by auto
  then show "filter (\<lambda>x. fst k = fst x) [(''a'', A), (''b'', B), (''c'', C)]
      = filter (\<lambda>x. fst k = fst x) d"
  proof cases
    case 1
    have "filter (\<lambda>x. fst k = fst x) d = [(''a'', A)]"
      by (rule filter_single) (simp add: assms 1)
    then show ?thesis by (simp add: 1)
  next
    case 2
    have "filter (\<lambda>x. fst k = fst x) d = [(''b'', B)]"
      by (rule filter_single) (simp add: assms 2)
    then show ?thesis by (simp add: 2)
  next
    case 3
    have "filter (\<lambda>x. fst k = fst x) d = [(''c'', C)]"
      by (rule filter_single) (simp add: assms 3)
    then show ?thesis by (simp add: 3)
  qed
qed

lemma disk_clear_unreserved:
  assumes "\<forall>k \<in> fst ` set (f_disk f). k \<notin> reserved E"
  shows "f_disk (clear_persistent_tables E f) = f_disk f"
proof -
  from assms have "KEY_MANIFEST E \<notin> fst ` set (f_disk f)"
    "LABEL_ENUM E \<notin> fst ` set (f_disk f)" "INDEX_TABLE E \<notin> fst ` set (f_disk f)"
    by (auto simp: reserved_def)
  then show ?thesis
    by (simp add: disk_clear_persistent_tables AList.delete_id)
qed

lemma File_create_tables_scan:
  assumes "for_each (cache_data E) (visititems (f_disk (clear_persistent_tables E f)))
       ([], ([], [])) = (None, (ks, (en, rows)))"
    and "asarray_ok rows"
  shows "File_create_tables E f =
     (Inr (), (clear_persistent_tables E f)\<lparr>f_keys := ks, f_label_enum := en,
        f_disk := f_disk (clear_persistent_tables E f) @
          [(INDEX_TABLE E, IndexTable rows), (KEY_MANIFEST E, KeyTable ks),
           (LABEL_ENUM E, EnumTable en)]\<rparr>)"
  using assms clear_persistent_tables_local [of E f]
  by (simp add: File_create_tables_def Let_def)

text \<open>The scan over three Sample items with one label each, in the order given.\<close>

lemma scan_three:
  assumes k: "is_keylike E k1" "is_keylike E k2" "is_keylike E k3" and xy: "x \<noteq> y"
  shows "for_each (cache_data E)
           [(k1, Item (sample_item v1 lk1 x)), (k2, Item (sample_item v2 lk2 y)),
            (k3, Item (sample_item v3 lk3 x))] ([], ([], [])) =
         (None, ([cleanse E k1, cleanse E k2, cleanse E k3],
           ([(AStr x, 0), (AStr y, 1)],
            [SampleRow (key_to_index E k1) 0, SampleRow (key_to_index E k2) 1,
             SampleRow (key_to_index E k3) 0])))"
  using k xy
  by (simp add: cache_data_def index_item_def sample_item_def sample_label_def Let_def
      enumerate_label_def)


lemma File_label_enum_rebuilt:
  assumes "\<not> contains f (LABEL_ENUM E)" "File_create_tables E f = (Inr (), g)"
    and "map_of (f_disk g) (LABEL_ENUM E) = Some (EnumTable en)" "f_label_enum g = en"
  shows "fst (File_label_enum E f) = Inr en"
  using assms by (simp add: File_label_enum_def Let_def)

lemma File_index_table_rebuilt:
  assumes "\<not> contains f (INDEX_TABLE E)" "File_create_tables E f = (Inr (), g)"
    and "map_of (f_disk g) (INDEX_TABLE E) = Some (IndexTable rows)" "f_index_table g = None"
  shows "fst (File_index_table E f) = Inr rows"
  using assms by (simp add: File_index_table_def)

lemma File_keys_rebuilt:
  assumes "\<not> contains f (KEY_MANIFEST E)" "File_create_tables E f = (Inr (), g)"
    and "map_of (f_disk g) (KEY_MANIFEST E) = Some (KeyTable ks)" "f_keys g = ks"
  shows "fst (File_keys E f) = Inr ks"
  using assms by (simp add: File_keys_def Let_def)

text \<open>
  C8. A store that holds exactly the three Sample items a, b, c with the labels x, y, x
  (x and y different), in whatever order they were created: the rebuild succeeds; the
  label enumeration it writes, and that \<open>label_enum()\<close> returns, maps x to 0 and y to 1
  and is a bijection from the labels \<open>{x, y}\<close> onto the codes \<open>{0, 1}\<close>; the index table
  it writes, and that \<open>index_table()\<close> returns, has exactly three rows, one per item in
  the order of the names, two of them with the code of x and one with the code of y.
\<close>

theorem File_create_tables_three:
  assumes E: "wf_env E"
    and k: "is_keylike E ''a''" "is_keylike E ''b''" "is_keylike E ''c''"
    and d: "mset (f_disk f) =
       {#(''a'', Item (sample_item va lka x)), (''b'', Item (sample_item vb lkb y)),
         (''c'', Item (sample_item vc lkc x))#}"
    and xy: "x \<noteq> y"
  shows "\<exists>g en rows.
     File_create_tables E f = (Inr (), g) \<and>
     map_of (f_disk g) (LABEL_ENUM E) = Some (EnumTable en) \<and>
     map_of (f_disk g) (INDEX_TABLE E) = Some (IndexTable rows) \<and>
     map_of (f_disk g) (KEY_MANIFEST E)
       = Some (KeyTable [cleanse E ''a'', cleanse E ''b'', cleanse E ''c'']) \<and>
     fst (File_label_enum E f) = Inr en \<and>
     fst (File_index_table E f) = Inr rows \<and>
     dom (map_of en) = {AStr x, AStr y} \<and>
     map_of en (AStr x) = Some 0 \<and> map_of en (AStr y) = Some 1 \<and>
     bij_betw (\<lambda>l. the (map_of en l)) {AStr x, AStr y} {0, 1} \<and>
     length rows = 3 \<and>
     rows_with (the (map_of en (AStr x))) rows = 2 \<and>
     rows_with (the (map_of en (AStr y))) rows = 1 \<and>
     map row_index rows = [key_to_index E ''a'', key_to_index E ''b'', key_to_index E ''c'']"
proof -
  let ?d = "[(''a'', Item (sample_item va lka x)), (''b'', Item (sample_item vb lkb y)),
             (''c'', Item (sample_item vc lkc x))]"
  let ?ks = "[cleanse E ''a'', cleanse E ''b'', cleanse E ''c'']"
  let ?en = "[(AStr x, 0::nat), (AStr y, 1)]"
  let ?rows = "[SampleRow (key_to_index E ''a'') 0, SampleRow (key_to_index E ''b'') 1,
                SampleRow (key_to_index E ''c'') 0]"
  let ?f1 = "clear_persistent_tables E f"
  let ?g = "?f1\<lparr>f_keys := ?ks, f_label_enum := ?en,
        f_disk := f_disk ?f1 @
          [(INDEX_TABLE E, IndexTable ?rows), (KEY_MANIFEST E, KeyTable ?ks),
           (LABEL_ENUM E, EnumTable ?en)]\<rparr>"
  from d have "mset (f_disk f) = mset ?d" by simp
  then have "set (f_disk f) = set ?d" by (rule mset_eq_setD)
  then have names: "fst ` set (f_disk f) = {''a'', ''b'', ''c''}" by simp
  have nr: "''a'' \<notin> reserved E" "''b'' \<notin> reserved E" "''c'' \<notin> reserved E"
    using E k by (simp_all add: wf_env_def)
  have unres: "\<forall>k \<in> fst ` set (f_disk f). k \<notin> reserved E"
    unfolding names using nr by simp
  have disk: "f_disk ?f1 = f_disk f" by (rule disk_clear_unreserved [OF unres])
  have vis: "visititems (f_disk f) = ?d" by (rule visititems_three [OF d])
  have scan: "for_each (cache_data E) (visititems (f_disk ?f1)) ([], ([], []))
      = (None, (?ks, (?en, ?rows)))"
    unfolding disk vis by (rule scan_three [OF k xy])
  have ok: "asarray_ok ?rows" by (simp add: asarray_ok_def)
  have ct: "File_create_tables E f = (Inr (), ?g)"
    by (rule File_create_tables_scan [OF scan ok])
  have res: "KEY_MANIFEST E \<noteq> LABEL_ENUM E" "KEY_MANIFEST E \<noteq> INDEX_TABLE E"
    "LABEL_ENUM E \<noteq> INDEX_TABLE E"
    using E by (auto simp: wf_env_def)
  have absent: "map_of (f_disk f) r = None" if "r \<in> reserved E" for r
    using that unres by (auto simp: map_of_eq_None_iff)
  have a1: "map_of (f_disk f) (LABEL_ENUM E) = None"
    and a2: "map_of (f_disk f) (INDEX_TABLE E) = None"
    and a3: "map_of (f_disk f) (KEY_MANIFEST E) = None"
    by (rule absent, simp add: reserved_def)+
  have m1: "map_of (f_disk ?g) (LABEL_ENUM E) = Some (EnumTable ?en)"
    using res a1 by (simp add: disk map_add_def)
  have m2: "map_of (f_disk ?g) (INDEX_TABLE E) = Some (IndexTable ?rows)"
    using res a2 by (simp add: disk map_add_def)
  have m3: "map_of (f_disk ?g) (KEY_MANIFEST E) = Some (KeyTable ?ks)"
    using res a3 by (simp add: disk map_add_def)
  have l1: "f_label_enum ?g = ?en" by simp
  have l2: "f_index_table ?g = None" by (simp add: clear_persistent_tables_local)
  have n1: "\<not> contains f (LABEL_ENUM E)" using a1 by (simp add: contains_def)
  have n2: "\<not> contains f (INDEX_TABLE E)" using a2 by (simp add: contains_def)
  have r1: "fst (File_label_enum E f) = Inr ?en"
    using n1 ct m1 l1 by (rule File_label_enum_rebuilt)
  have r2: "fst (File_index_table E f) = Inr ?rows"
    using n2 ct m2 l2 by (rule File_index_table_rebuilt)
  have dm: "dom (map_of ?en) = {AStr x, AStr y}" by auto
  have cx: "map_of ?en (AStr x) = Some 0" by simp
  have cy: "map_of ?en (AStr y) = Some 1" using xy by simp
  have bij: "bij_betw (\<lambda>l. the (map_of ?en l)) {AStr x, AStr y} {0, 1}"
    unfolding bij_betw_def using xy by (auto simp: inj_on_def)
  have len: "length ?rows = 3" by simp
  have nx: "rows_with (the (map_of ?en (AStr x))) ?rows = 2"
    by (simp add: rows_with_def)
  have ny: "rows_with (the (map_of ?en (AStr y))) ?rows = 1"
    using xy by (simp add: rows_with_def)
  have idx: "map row_index ?rows
      = [key_to_index E ''a'', key_to_index E ''b'', key_to_index E ''c'']"
    by simp
  show ?thesis
    using ct m1 m2 m3 r1 r2 dm cx cy bij len nx ny idx
    by (intro exI [of _ ?g] exI [of _ ?en] exI [of _ ?rows] conjI)
qed


text \<open>
  The statement at the store of the scenario, with its three items held in the order
  c, b, a.
\<close>

theorem File_create_tables_three_witness:
  "wf_env env0 \<and> is_keylike env0 ''a'' \<and> is_keylike env0 ''b'' \<and> is_keylike env0 ''c'' \<and>
   mset (f_disk (abc_file\<lparr>f_disk := rev (f_disk abc_file)\<rparr>)) =
       {#(''a'', Item (sample_item () ''chord'' ''x'')),
         (''b'', Item (sample_item () ''chord'' ''y'')),
         (''c'', Item (sample_item () ''chord'' ''x''))#} \<and>
   ''x'' \<noteq> ''y'' \<and>
   (\<exists>en rows.
      fst (File_create_tables env0 (abc_file\<lparr>f_disk := rev (f_disk abc_file)\<rparr>)) = Inr () \<and>
      fst (File_label_enum env0 (abc_file\<lparr>f_disk := rev (f_disk abc_file)\<rparr>)) = Inr en \<and>
      fst (File_index_table env0 (abc_file\<lparr>f_disk := rev (f_disk abc_file)\<rparr>)) = Inr rows \<and>
      map_of en (AStr ''x'') = Some 0 \<and> map_of en (AStr ''y'') = Some 1 \<and>
      length rows = 3 \<and> rows_with 0 rows = 2 \<and> rows_with 1 rows = 1)"
proof -
  let ?f = "abc_file\<lparr>f_disk := rev (f_disk abc_file)\<rparr>"
  have k: "is_keylike env0 ''a''" "is_keylike env0 ''b''" "is_keylike env0 ''c''"
    by (simp_all add: env0_def)
  have d: "mset (f_disk ?f) =
       {#(''a'', Item (sample_item () ''chord'' ''x'')),
         (''b'', Item (sample_item () ''chord'' ''y'')),
         (''c'', Item (sample_item () ''chord'' ''x''))#}"
    by (simp add: abc_file_def)
  have xy: "''x'' \<noteq> ''y''" by simp
  from File_create_tables_three [OF wf_env0 k d xy] obtain g en rows where
    c: "File_create_tables env0 ?f = (Inr (), g)"
    and r: "fst (File_label_enum env0 ?f) = Inr en" "fst (File_index_table env0 ?f) = Inr rows"
    and m: "map_of en (AStr ''x'') = Some 0" "map_of en (AStr ''y'') = Some 1"
    and n: "length rows = 3" "rows_with (the (map_of en (AStr ''x''))) rows = 2"
      "rows_with (the (map_of en (AStr ''y''))) rows = 1"
    by (elim exE conjE)
  from c have c': "fst (File_create_tables env0 ?f) = Inr ()" by simp
  from n m have n': "rows_with 0 rows = 2" "rows_with 1 rows = 1" by simp_all
  have "\<exists>en rows.
      fst (File_create_tables env0 ?f) = Inr () \<and>
      fst (File_label_enum env0 ?f) = Inr en \<and>
      fst (File_index_table env0 ?f) = Inr rows \<and>
      map_of en (AStr ''x'') = Some 0 \<and> map_of en (AStr ''y'') = Some 1 \<and>
      length rows = 3 \<and> rows_with 0 rows = 2 \<and> rows_with 1 rows = 1"
    using c' r m n(1) n' by (intro exI [of _ en] exI [of _ rows] conjI)
  then show ?thesis
    using wf_env0 k d xy by (intro conjI)
qed

end
